(* ===== verification/Prelude.thy ===== *)
theory Prelude
  imports Main "HOL-Library.Word" "HOL-Library.AList"
begin

text \<open>
  Shared vocabulary of the development: names for the machine types of the code, the
  special characters its protocol uses, joining and splitting of strings (the reference
  definitions the parsers are compared with), the decimal numbers of the C++ standard
  library (\<open>std::to_string\<close>, \<open>std::stoi\<close>, \<open>std::stoll\<close>), integer division that truncates
  towards zero, and two theorem collections: \<open>frame\<close> for "this operation leaves that
  field alone" and \<open>text_simps\<close> for facts on strings.
\<close>

named_theorems frame \<open>which state components an operation leaves unchanged\<close>
named_theorems text_simps \<open>simplification of string operations\<close>

section \<open>Types and characters\<close>

type_synonym fd = int
type_synonym bytes = string
type_synonym u32 = "32 word"
type_synonym size_t = "64 word"

abbreviation NL :: char where "NL \<equiv> CHR 0x0A"
abbreviation TAB :: char where "TAB \<equiv> CHR 0x09"
abbreviation ESC :: char where "ESC \<equiv> CHR 0x1B"
abbreviation SQ :: char where "SQ \<equiv> CHR 0x27"

abbreviation code_of :: "char \<Rightarrow> nat" where "code_of c \<equiv> of_char c"

text \<open>The classes of \<open><cctype>\<close> in the "C" locale (the program never calls \<open>setlocale\<close>).\<close>

definition isdigit :: "char \<Rightarrow> bool" where
  "isdigit c \<longleftrightarrow> 48 \<le> code_of c \<and> code_of c \<le> 57"

definition isalpha :: "char \<Rightarrow> bool" where
  "isalpha c \<longleftrightarrow> 65 \<le> code_of c \<and> code_of c \<le> 90 \<or> 97 \<le> code_of c \<and> code_of c \<le> 122"

definition isalnum :: "char \<Rightarrow> bool" where
  "isalnum c \<longleftrightarrow> isalpha c \<or> isdigit c"

definition iscntrl :: "char \<Rightarrow> bool" where
  "iscntrl c \<longleftrightarrow> code_of c < 32 \<or> code_of c = 127"

definition isspace :: "char \<Rightarrow> bool" where
  "isspace c \<longleftrightarrow> 9 \<le> code_of c \<and> code_of c \<le> 13 \<or> code_of c = 32"

section \<open>Joining and splitting\<close>

fun join :: "string \<Rightarrow> string list \<Rightarrow> string" where
  "join d [] = []"
| "join d [x] = x"
| "join d (x # y # xs) = x @ d @ join d (y # xs)"

lemma join_Cons: "xs \<noteq> [] \<Longrightarrow> join d (x # xs) = x @ d @ join d xs"
  by (cases xs) auto

lemma join_snoc: "xs \<noteq> [] \<Longrightarrow> join d (xs @ [y]) = join d xs @ d @ y"
  by (induction xs rule: join.induct[of _ d]) auto

lemma join_concat: "join d (x # xs) = x @ concat (map (\<lambda>y. d @ y) xs)"
  by (induction xs arbitrary: x) auto

lemma set_join_subset: "set (join d xs) \<subseteq> set d \<union> (\<Union>x\<in>set xs. set x)"
  by (induction d xs rule: join.induct) auto

text \<open>Splitting at one character: the reference the index loop of the code is compared with.\<close>

fun splitc :: "char \<Rightarrow> string \<Rightarrow> string list" where
  "splitc c [] = [[]]"
| "splitc c (x # xs) =
     (if x = c then [] # splitc c xs
      else (case splitc c xs of [] \<Rightarrow> [[x]] | t # ts \<Rightarrow> (x # t) # ts))"

lemma splitc_not_Nil [simp]: "splitc c s \<noteq> []"
  by (cases s) (auto split: list.splits)

lemma splitc_no_char [text_simps]: "c \<notin> set s \<Longrightarrow> splitc c s = [s]"
  by (induction s) auto

lemma splitc_append [text_simps]: "c \<notin> set s \<Longrightarrow> splitc c (s @ c # t) = s # splitc c t"
  by (induction s) auto

lemma splitc_pieces: "t \<in> set (splitc c s) \<Longrightarrow> c \<notin> set t"
  by (induction s arbitrary: t) (auto split: list.splits if_splits)

lemma splitc_set: "t \<in> set (splitc c s) \<Longrightarrow> set t \<subseteq> set s"
  by (induction s arbitrary: t) (fastforce split: list.splits if_splits)+

lemma length_splitc: "length (splitc c s) = Suc (count_list s c)"
  by (induction s) (auto split: list.splits)

lemma join_splitc: "join [c] (splitc c s) = s"
proof (induction s)
  case (Cons x s)
  show ?case
  proof (cases "splitc c s")
    case (Cons t ts)
    with Cons.IH show ?thesis by (cases ts) (auto simp: join_Cons)
  qed simp
qed simp

lemma splitc_join:
  "xs \<noteq> [] \<Longrightarrow> (\<forall>x\<in>set xs. c \<notin> set x) \<Longrightarrow> splitc c (join [c] xs) = xs"
  by (induction "[c]" xs rule: join.induct) (auto simp: text_simps)

lemma find_SomeD: "find P xs = Some x \<Longrightarrow> x \<in> set xs \<and> P x"
  by (induction xs) (auto split: if_splits)

lemma fold_keeps: "(\<And>x s. g (f x s) = g s) \<Longrightarrow> g (fold f xs s) = g s"
  by (induction xs arbitrary: s) simp_all

section \<open>Decimal numbers\<close>

definition digit :: "nat \<Rightarrow> char" where
  "digit n = char_of (48 + n)"

fun nat_str :: "nat \<Rightarrow> string" where
  "nat_str n = (if n < 10 then [digit n] else nat_str (n div 10) @ [digit (n mod 10)])"

declare nat_str.simps [simp del]

text \<open>\<open>std::to_string\<close> of a signed integer.\<close>

definition to_string :: "int \<Rightarrow> string" where
  "to_string i = (if i < 0 then ''-'' @ nat_str (nat (- i)) else nat_str (nat i))"

definition digits_value :: "string \<Rightarrow> int" where
  "digits_value s = foldl (\<lambda>a c. a * 10 + (int (code_of c) - 48)) 0 s"

text \<open>
  \<open>std::stoi\<close> and \<open>std::stoll\<close>: leading white space, an optional sign, then the longest
  run of digits; what follows the digits is ignored. \<open>None\<close> is the exception they throw:
  no digit, or a value outside the result type.
\<close>

definition sto :: "int \<Rightarrow> int \<Rightarrow> string \<Rightarrow> int option" where
  "sto lo hi s =
     (let t = dropWhile isspace s;
          neg = (case t of c # _ \<Rightarrow> c = CHR ''-'' | [] \<Rightarrow> False);
          u = (case t of c # r \<Rightarrow> if c = CHR ''-'' \<or> c = CHR ''+'' then r else t | [] \<Rightarrow> []);
          ds = takeWhile isdigit u;
          v = (if neg then - digits_value ds else digits_value ds)
      in if ds = [] then None else if lo \<le> v \<and> v \<le> hi then Some v else None)"

definition INT_MIN :: int where "INT_MIN = - (2 ^ 31)"
definition INT_MAX :: int where "INT_MAX = 2 ^ 31 - 1"
definition LLONG_MIN :: int where "LLONG_MIN = - (2 ^ 63)"
definition LLONG_MAX :: int where "LLONG_MAX = 2 ^ 63 - 1"

definition stoi :: "string \<Rightarrow> int option" where
  "stoi = sto INT_MIN INT_MAX"

definition stoll :: "string \<Rightarrow> int option" where
  "stoll = sto LLONG_MIN LLONG_MAX"

lemma sto_bounds: "sto lo hi s = Some v \<Longrightarrow> lo \<le> v \<and> v \<le> hi"
  by (auto simp: sto_def Let_def split: if_splits)

lemma code_of_digit: "n < 10 \<Longrightarrow> code_of (digit n) = 48 + n"
  by (simp add: digit_def)

lemma isdigit_digit: "n < 10 \<Longrightarrow> isdigit (digit n)"
  by (simp add: isdigit_def code_of_digit)

lemma nat_str_not_Nil [simp]: "nat_str n \<noteq> []"
  by (subst nat_str.simps) simp

lemma nat_str_digits: "\<forall>c\<in>set (nat_str n). isdigit c"
proof (induction n rule: nat_str.induct)
  case (1 n)
  then show ?case
    by (subst nat_str.simps) (auto simp: isdigit_digit)
qed

lemma digits_value_snoc: "digits_value (s @ [c]) = digits_value s * 10 + (int (code_of c) - 48)"
  by (simp add: digits_value_def)

lemma digits_value_nat_str: "digits_value (nat_str n) = int n"
proof (induction n rule: nat_str.induct)
  case (1 n)
  show ?case
  proof (cases "n < 10")
    case True
    then show ?thesis
      by (subst nat_str.simps) (simp add: digits_value_def code_of_digit)
  next
    case False
    with "1.IH" have "digits_value (nat_str (n div 10)) = int (n div 10)" by simp
    moreover have "int (n div 10) * 10 + int (n mod 10) = int n"
      by (metis div_mult_mod_eq of_nat_add of_nat_mult of_nat_numeral)
    ultimately show ?thesis using False
      by (subst nat_str.simps) (simp add: digits_value_snoc code_of_digit)
  qed
qed

lemma not_digit_special: "\<not> isdigit (CHR ''-'')" "\<not> isdigit (CHR ''+'')" "\<not> isdigit NL"
  "\<not> isdigit (CHR '';'')" "\<not> isdigit (CHR '','')"
  by (simp_all add: isdigit_def)

lemma not_space_digit: "isdigit c \<Longrightarrow> \<not> isspace c"
  by (auto simp: isdigit_def isspace_def)

lemma to_string_chars: "c \<in> set (to_string i) \<Longrightarrow> isdigit c \<or> c = CHR ''-''"
  using nat_str_digits by (auto simp: to_string_def split: if_splits)

lemma to_string_no_sep [text_simps]:
  "CHR '';'' \<notin> set (to_string i)" "NL \<notin> set (to_string i)" "CHR '','' \<notin> set (to_string i)"
  using to_string_chars not_digit_special by fastforce+

lemma takeWhile_nat_str: "takeWhile isdigit (nat_str n) = nat_str n"
  using nat_str_digits by (simp add: takeWhile_eq_all_conv)

lemma sto_digit_first:
  assumes "isdigit d"
  shows "sto lo hi (d # s) =
    (let v = digits_value (takeWhile isdigit (d # s)) in if lo \<le> v \<and> v \<le> hi then Some v else None)"
proof -
  have "d \<noteq> CHR ''-''" "d \<noteq> CHR ''+''" "\<not> isspace d"
    using assms not_digit_special not_space_digit by auto
  with assms show ?thesis by (simp add: sto_def Let_def)
qed

lemma sto_minus: "sto lo hi (CHR ''-'' # s) =
    (let ds = takeWhile isdigit s; v = - digits_value ds in
     if ds = [] then None else if lo \<le> v \<and> v \<le> hi then Some v else None)"
  by (simp add: sto_def Let_def isspace_def)

lemma sto_to_string:
  assumes "lo \<le> i" and "i \<le> hi"
  shows "sto lo hi (to_string i) = Some i"
proof (cases "i < 0")
  case True
  with assms show ?thesis
    by (simp add: to_string_def sto_minus takeWhile_nat_str digits_value_nat_str Let_def)
next
  case False
  obtain d ds where nd: "nat_str (nat i) = d # ds" by (cases "nat_str (nat i)") auto
  have "isdigit d" using nat_str_digits[of "nat i"] nd by simp
  then have "sto lo hi (nat_str (nat i)) = Some i"
    using False assms nat_str_digits[of "nat i"] digits_value_nat_str[of "nat i"]
    by (simp add: nd sto_digit_first Let_def takeWhile_eq_all_conv[THEN iffD2])
  with False show ?thesis by (simp add: to_string_def)
qed

lemma stoi_to_string: "INT_MIN \<le> i \<Longrightarrow> i \<le> INT_MAX \<Longrightarrow> stoi (to_string i) = Some i"
  by (simp add: stoi_def sto_to_string)

lemma stoll_to_string: "LLONG_MIN \<le> i \<Longrightarrow> i \<le> LLONG_MAX \<Longrightarrow> stoll (to_string i) = Some i"
  by (simp add: stoll_def sto_to_string)

section \<open>Division that truncates towards zero\<close>

definition tdiv :: "int \<Rightarrow> int \<Rightarrow> int" where
  "tdiv a b = sgn a * sgn b * (\<bar>a\<bar> div \<bar>b\<bar>)"

definition tmod :: "int \<Rightarrow> int \<Rightarrow> int" where
  "tmod a b = a - tdiv a b * b"

lemma tdiv_nonneg: "0 \<le> a \<Longrightarrow> 0 < b \<Longrightarrow> tdiv a b = a div b"
  by (cases "a = 0") (auto simp: tdiv_def)

lemma tmod_nonneg: "0 \<le> a \<Longrightarrow> 0 < b \<Longrightarrow> tmod a b = a mod b"
  by (simp add: tmod_def tdiv_nonneg minus_div_mult_eq_mod)

lemma tdiv_mult: "0 < b \<Longrightarrow> tdiv (a * b) b = a"
  by (simp add: tdiv_def abs_mult sgn_mult sgn_mult_abs)

section \<open>Reading a file by lines\<close>

text \<open>
  \<open>std::getline\<close> in a loop: the pieces between newlines; a last piece that is not ended by
  a newline is returned when it is not empty.
\<close>

definition getlines :: "string \<Rightarrow> string list" where
  "getlines s = (let ps = splitc NL s in if last ps = [] then butlast ps else ps)"

lemma getlines_Nil [simp]: "getlines [] = []"
  by (simp add: getlines_def)

lemma getlines_line: "NL \<notin> set l \<Longrightarrow> getlines (l @ NL # s) = l # getlines s"
  by (simp add: getlines_def Let_def text_simps)

lemma getlines_concat:
  "(\<forall>l\<in>set ls. NL \<notin> set l) \<Longrightarrow> getlines (concat (map (\<lambda>l. l @ [NL]) ls)) = ls"
  by (induction ls) (auto simp: getlines_line)

lemma getlines_no_NL: "l \<in> set (getlines s) \<Longrightarrow> NL \<notin> set l"
  by (auto simp: getlines_def Let_def dest: in_set_butlastD splitc_pieces split: if_splits)

end
