(* ===== verification/Text_Utils.thy ===== *)
theory Text_Utils
  imports Prelude
begin

text \<open>
  The string and time functions of \<open>src/Utils/Utils.cpp\<close> that need no configuration:
  \<open>split\<close>, \<open>sanitize\<close>, \<open>isValidBody\<close>, and the conversions between time points and Unix
  seconds. A \<open>system_clock::time_point\<close> is its count of nanoseconds, a 64-bit integer.
\<close>

section \<open>split\<close>

text \<open>\<open>std::string::find\<close> and \<open>std::string::substr\<close>.\<close>

fun str_find :: "string \<Rightarrow> string \<Rightarrow> nat option" where
  "str_find d [] = (if d = [] then Some 0 else None)"
| "str_find d (c # s) =
     (if take (length d) (c # s) = d then Some 0 else map_option Suc (str_find d s))"

definition find_from :: "string \<Rightarrow> string \<Rightarrow> nat \<Rightarrow> nat option" where
  "find_from s d pos =
     (if pos \<le> length s then map_option (\<lambda>i. pos + i) (str_find d (drop pos s)) else None)"

definition substr :: "string \<Rightarrow> nat \<Rightarrow> nat \<Rightarrow> string" where
  "substr s pos n = take n (drop pos s)"

lemma str_find_Some:
  "str_find d s = Some i \<Longrightarrow> s = take i s @ d @ drop (i + length d) s \<and> i + length d \<le> length s"
proof (induction s arbitrary: i)
  case (Cons c s)
  show ?case
  proof (cases "take (length d) (c # s) = d")
    case True
    with Cons.prems have "i = 0" by simp
    with True append_take_drop_id[of "length d" "c # s"] show ?thesis
      by (metis append_Nil add_0 take0 length_take min.absorb_iff2 nat_le_linear take_all)
  next
    case False
    with Cons.prems obtain j where "str_find d s = Some j" "i = Suc j" by auto
    with Cons.IH show ?thesis by auto
  qed
qed (auto split: if_splits)

lemma find_from_Some:
  assumes "find_from s d pos = Some e"
  shows "pos \<le> e" "e + length d \<le> length s" "drop pos s = substr s pos (e - pos) @ d @ drop (e + length d) s"
proof -
  from assms obtain i where i: "pos \<le> length s" "str_find d (drop pos s) = Some i" "e = pos + i"
    by (auto simp: find_from_def split: if_splits)
  from str_find_Some[OF i(2)] i(1,3)
  show "pos \<le> e" "e + length d \<le> length s" "drop pos s = substr s pos (e - pos) @ d @ drop (e + length d) s"
    by (auto simp: substr_def add.commute add.left_commute)
qed

lemma split_progress:
  assumes "find_from s d start = Some e" and "d \<noteq> []"
  shows "Suc (length s) - (e + length d) < Suc (length s) - start"
proof -
  from assms(2) have "0 < length d" by simp
  with find_from_Some(1,2)[OF assms(1)] show ?thesis by linarith
qed

text \<open>
  The loop of \<open>split\<close>. The delimiter is not empty here (the function returned before the
  loop otherwise), which is what makes the start position grow and the loop end.
\<close>

function split_loop :: "string \<Rightarrow> string \<Rightarrow> string list \<Rightarrow> nat \<Rightarrow> string list" where
  "split_loop s d tokens start =
     (if d = [] then tokens
      else (case find_from s d start of
              None \<Rightarrow> tokens @ [drop start s]
            | Some e \<Rightarrow> split_loop s d (tokens @ [substr s start (e - start)]) (e + length d)))"
  by pat_completeness auto
termination
  by (relation "measure (\<lambda>(s, d, tokens, start). Suc (length s) - start)")
     (auto intro: split_progress)

declare split_loop.simps [simp del]

definition split :: "string \<Rightarrow> string \<Rightarrow> string list" where
  "split s delimiter =
     (if s = [] \<or> delimiter = [] then [] else split_loop s delimiter [] 0)"

lemma split_loop_append: "split_loop s d (a @ tokens) start = a @ split_loop s d tokens start"
proof (induction s d tokens start rule: split_loop.induct)
  case (1 s d tokens start)
  then show ?case
    by (cases "find_from s d start") (simp_all add: split_loop.simps[of s d _ start])
qed

lemma split_loop_None:
  "d \<noteq> [] \<Longrightarrow> find_from s d start = None \<Longrightarrow> split_loop s d [] start = [drop start s]"
  by (simp add: split_loop.simps)

lemma split_loop_Some:
  "d \<noteq> [] \<Longrightarrow> find_from s d start = Some e \<Longrightarrow>
   split_loop s d [] start = substr s start (e - start) # split_loop s d [] (e + length d)"
  using split_loop_append[of s d "[substr s start (e - start)]" "[]" "e + length d"]
  by (simp add: split_loop.simps[of s d "[]" start])

lemma split_loop_not_Nil: "d \<noteq> [] \<Longrightarrow> split_loop s d [] start \<noteq> []"
  by (cases "find_from s d start") (simp_all add: split_loop_None split_loop_Some)

lemma split_induct [consumes 1, case_names None Some]:
  assumes "d \<noteq> []"
    and "\<And>start. find_from s d start = None \<Longrightarrow> P start"
    and "\<And>start e. find_from s d start = Some e \<Longrightarrow> P (e + length d) \<Longrightarrow> P start"
  shows "P start"
proof (induction "Suc (length s) - start" arbitrary: start rule: less_induct)
  case less
  show ?case
  proof (cases "find_from s d start")
    case (Some e)
    with assms(1) have "Suc (length s) - (e + length d) < Suc (length s) - start"
      by (rule split_progress[rotated])
    from less[OF this] assms(3)[OF Some] show ?thesis by blast
  qed (rule assms(2))
qed

text \<open>Joining the pieces with the delimiter gives the string back, for any delimiter.\<close>

lemma join_split_loop:
  assumes d: "d \<noteq> []"
  shows "join d (split_loop s d [] start) = drop start s"
  using d
proof (induction start rule: split_induct[where s = s])
  case (None start)
  then show ?case by (simp add: d split_loop_None)
next
  case (Some start e)
  then show ?case
    using find_from_Some(3)[OF Some(1)]
    by (simp add: d split_loop_Some split_loop_not_Nil join_Cons)
qed

lemma join_split: "d \<noteq> [] \<Longrightarrow> join d (split s d) = s"
  by (cases "s = []") (simp_all add: split_def join_split_loop)

text \<open>With a delimiter of one character the loop computes the reference split.\<close>

lemma str_find_char: "str_find [c] s = (if c \<in> set s then Some (length (takeWhile (\<lambda>x. x \<noteq> c) s)) else None)"
  by (induction s) auto

lemma split_loop_char:
  assumes "start \<le> length s"
  shows "split_loop s [c] [] start = splitc c (drop start s)"
  using not_Cons_self2[of c "[]"] assms
proof (induction start rule: split_induct[where s = s])
  case (None start)
  then have "c \<notin> set (drop start s)"
    by (auto simp: find_from_def str_find_char split: if_splits)
  with None show ?case by (simp add: split_loop_None splitc_no_char)
next
  case (Some start e)
  then have c: "c \<in> set (drop start s)"
    and e: "e = start + length (takeWhile (\<lambda>x. x \<noteq> c) (drop start s))"
    by (auto simp: find_from_def str_find_char split: if_splits)
  have piece: "substr s start (e - start) = takeWhile (\<lambda>x. x \<noteq> c) (drop start s)"
    unfolding substr_def e by (simp add: takeWhile_eq_take[symmetric])
  have "c \<notin> set (substr s start (e - start))"
    unfolding piece using set_takeWhileD by fastforce
  with Some find_from_Some[OF Some(1)] show ?case
    by (simp add: split_loop_Some splitc_append)
qed

lemma split_char: "split s [c] = (if s = [] then [] else splitc c s)"
  by (simp add: split_def split_loop_char)

section \<open>sanitize and isValidBody\<close>

definition sanitize :: "string \<Rightarrow> string" where
  "sanitize input = map (\<lambda>c. if iscntrl c \<and> c \<noteq> NL \<and> c \<noteq> TAB then CHR '' '' else c) input"

definition isValidBody :: "string \<Rightarrow> bool" where
  "isValidBody body \<longleftrightarrow> body \<noteq> []"

lemma length_sanitize [simp]: "length (sanitize s) = length s"
  by (simp add: sanitize_def)

lemma sanitize_eq_Nil [simp]: "sanitize s = [] \<longleftrightarrow> s = []"
  by (simp add: sanitize_def)

lemma sanitize_id: "(\<forall>c\<in>set s. \<not> iscntrl c \<or> c = NL \<or> c = TAB) \<Longrightarrow> sanitize s = s"
  by (induction s) (auto simp: sanitize_def)

lemma sanitize_clean: "c \<in> set (sanitize s) \<Longrightarrow> \<not> iscntrl c \<or> c = NL \<or> c = TAB"
  by (auto simp: sanitize_def iscntrl_def split: if_splits)

lemma sanitize_idem: "sanitize (sanitize s) = sanitize s"
  using sanitize_clean by (blast intro: sanitize_id)

lemma sanitize_set: "set (sanitize s) \<subseteq> insert (CHR '' '') (set s)"
  by (auto simp: sanitize_def)

lemma sanitize_no_char [text_simps]: "c \<notin> set s \<Longrightarrow> c \<noteq> CHR '' '' \<Longrightarrow> c \<notin> set (sanitize s)"
  using sanitize_set by blast

section \<open>Time points and Unix seconds\<close>

definition ns_per_s :: int where "ns_per_s = 1000000000"

definition to_time_t :: "int \<Rightarrow> int" where
  "to_time_t tp = tdiv tp ns_per_s"

text \<open>\<open>from_time_t\<close> multiplies in 64 bits.\<close>

definition from_time_t :: "int \<Rightarrow> int" where
  "from_time_t t = sint (word_of_int (t * ns_per_s) :: 64 word)"

definition timestampToUnixString :: "int \<Rightarrow> string" where
  "timestampToUnixString tp = to_string (to_time_t tp)"

text \<open>The second argument is what \<open>system_clock::now()\<close> returns in the \<open>catch\<close> branch.\<close>

definition unixStringToTimestamp :: "string \<Rightarrow> int \<Rightarrow> int" where
  "unixStringToTimestamp str now =
     (case stoll str of Some v \<Rightarrow> from_time_t v | None \<Rightarrow> now)"

definition time_point :: "int \<Rightarrow> bool" where
  "time_point tp \<longleftrightarrow> LLONG_MIN \<le> tp \<and> tp \<le> LLONG_MAX"

lemma tdiv_ns_bounds:
  assumes "time_point tp"
  shows "LLONG_MIN \<le> to_time_t tp * ns_per_s" "to_time_t tp * ns_per_s \<le> LLONG_MAX"
    "LLONG_MIN \<le> to_time_t tp" "to_time_t tp \<le> LLONG_MAX"
  using assms unfolding to_time_t_def tdiv_def time_point_def LLONG_MIN_def LLONG_MAX_def ns_per_s_def
  by (cases tp "0 :: int" rule: linorder_cases; simp add: sgn_if; presburger)+

lemma sint_word_of_int_range:
  "LLONG_MIN \<le> i \<Longrightarrow> i \<le> LLONG_MAX \<Longrightarrow> sint (word_of_int i :: 64 word) = i"
  by (simp add: LLONG_MIN_def LLONG_MAX_def signed_of_int signed_take_bit_int_eq_self)

text \<open>The round trip keeps the time point cut to whole seconds.\<close>

lemma unix_roundtrip:
  assumes "time_point tp"
  shows "unixStringToTimestamp (timestampToUnixString tp) now = to_time_t tp * ns_per_s"
  using tdiv_ns_bounds[OF assms]
  by (simp add: unixStringToTimestamp_def timestampToUnixString_def stoll_to_string
      from_time_t_def sint_word_of_int_range del: of_int_mult)

section \<open>Properties\<close>

text \<open>\<open>Utils::split\<close> loses nothing: joining its pieces with the delimiter gives the string
  back, for any non-empty delimiter; with a delimiter of one character the pieces hold no
  delimiter and there is one more of them than delimiters in the string.\<close>

theorem split_lossless:
  assumes "d \<noteq> []"
  shows "join d (split s d) = s \<and>
    (s \<noteq> [] \<longrightarrow> length (split s [c]) = Suc (count_list s c) \<and> (\<forall>t\<in>set (split s [c]). c \<notin> set t))"
  using assms by (auto simp: join_split split_char length_splitc dest: splitc_pieces)

theorem split_lossless_witness:
  "join ''; '' (split ''a; b; '' ''; '') = ''a; b; '' \<and> length (split ''a;b;'' '';'') = 3"
  using split_lossless[of "''; ''" "''a; b; ''"] split_lossless[of "'';''" "''a;b;''" "CHR '';''"]
  by simp

text \<open>\<open>timestampToUnixString\<close> and \<open>unixStringToTimestamp\<close> are inverse up to whole seconds:
  every 64-bit time point comes back cut to its second, in particular at most a second away,
  and the fallback to the current time is never taken.\<close>

theorem unix_timestamp_roundtrip:
  assumes "time_point tp"
  shows "unixStringToTimestamp (timestampToUnixString tp) now = tdiv tp ns_per_s * ns_per_s \<and>
    \<bar>tp - unixStringToTimestamp (timestampToUnixString tp) now\<bar> < ns_per_s"
proof -
  have "\<bar>tp - tdiv tp ns_per_s * ns_per_s\<bar> < ns_per_s"
    unfolding tdiv_def ns_per_s_def
    by (cases tp "0 :: int" rule: linorder_cases; simp add: sgn_if; presburger)
  then show ?thesis by (simp add: unix_roundtrip[OF assms] to_time_t_def)
qed

theorem unix_timestamp_roundtrip_witness:
  "unixStringToTimestamp (timestampToUnixString 1700000000999999999) 5 = 1700000000000000000"
proof -
  have "tdiv 1700000000999999999 ns_per_s * ns_per_s = 1700000000000000000"
    by (simp add: tdiv_def ns_per_s_def)
  with unix_timestamp_roundtrip[of 1700000000999999999 5] show ?thesis
    by (simp add: time_point_def LLONG_MIN_def LLONG_MAX_def)
qed

text \<open>\<open>sanitize\<close> keeps the length, leaves no control character but newline and tab, keeps
  every other character in its place, and changes nothing when applied again.\<close>

theorem sanitize_spec:
  "length (sanitize s) = length s \<and> (\<forall>c\<in>set (sanitize s). \<not> iscntrl c \<or> c = NL \<or> c = TAB) \<and>
   (\<forall>i<length s. sanitize s ! i = (if iscntrl (s ! i) \<and> s ! i \<notin> {NL, TAB} then CHR '' '' else s ! i)) \<and>
   sanitize (sanitize s) = sanitize s"
  using sanitize_clean[of _ s] by (auto simp: sanitize_idem) (simp_all add: sanitize_def)

theorem sanitize_spec_witness: "sanitize (sanitize [ESC, CHR ''a'', NL]) = [CHR '' '', CHR ''a'', NL]"
  using sanitize_spec[of "[ESC, CHR ''a'', NL]"] by (simp add: sanitize_def iscntrl_def)

end
