(* ===== verification/Constants.thy ===== *)
theory Constants
  imports Prelude
begin

text \<open>
  The constants of \<open>include/Utils/Constants.hpp\<close>, the terminal colours of
  \<open>include/Utils/Colors.hpp\<close>, and the collection \<open>const_defs\<close> of their values.
\<close>

definition MAX_MESSAGE_SIZE :: nat where "MAX_MESSAGE_SIZE = 10 * 1024 * 1024"
definition MAX_QUEUE_SIZE :: int where "MAX_QUEUE_SIZE = 1000"
definition HEARTBEAT_INTERVAL_S :: int where "HEARTBEAT_INTERVAL_S = 30"
definition HEARTBEAT_CHECK_DELAY_S :: int where "HEARTBEAT_CHECK_DELAY_S = 5"
definition HEARTBEAT_TIMEOUT_S :: int where "HEARTBEAT_TIMEOUT_S = 90"
definition CLIENT_TIMEOUT_S :: int where "CLIENT_TIMEOUT_S = 120"
definition AUTO_STOP_WHEN_NO_CLIENTS :: bool where "AUTO_STOP_WHEN_NO_CLIENTS = False"
definition THREAD_POOL_SIZE :: nat where "THREAD_POOL_SIZE = 12"
definition MAIN_LOOP_SLEEP_S :: int where "MAIN_LOOP_SLEEP_S = 1"
definition DEFAULT_PORT :: int where "DEFAULT_PORT = 8080"
definition MAX_USERNAME_LENGTH :: int where "MAX_USERNAME_LENGTH = 32"
definition MAX_SUBJECT_LENGTH :: int where "MAX_SUBJECT_LENGTH = 100"
definition MIN_USERNAME_LENGTH :: int where "MIN_USERNAME_LENGTH = 3"
definition MAX_USERNAME_LENGTH_LIMIT :: int where "MAX_USERNAME_LENGTH_LIMIT = 100"
definition MIN_SUBJECT_LENGTH :: int where "MIN_SUBJECT_LENGTH = 10"
definition MAX_SUBJECT_LENGTH_LIMIT :: int where "MAX_SUBJECT_LENGTH_LIMIT = 500"
definition MIN_HEARTBEAT_INTERVAL_S :: int where "MIN_HEARTBEAT_INTERVAL_S = 5"
definition MIN_HEARTBEAT_TIMEOUT_S :: int where "MIN_HEARTBEAT_TIMEOUT_S = 10"
definition MESSAGE_DELIMITER :: string where "MESSAGE_DELIMITER = '';''"
definition DEFAULT_SERVER_LOG :: string where "DEFAULT_SERVER_LOG = ''server.log''"
definition DEFAULT_CLIENT_LOG :: string where "DEFAULT_CLIENT_LOG = ''client.log''"
definition DEFAULT_BANLIST :: string where "DEFAULT_BANLIST = ''banlist''"

lemmas const_defs =
  MAX_MESSAGE_SIZE_def MAX_QUEUE_SIZE_def HEARTBEAT_INTERVAL_S_def HEARTBEAT_CHECK_DELAY_S_def
  HEARTBEAT_TIMEOUT_S_def CLIENT_TIMEOUT_S_def AUTO_STOP_WHEN_NO_CLIENTS_def
  THREAD_POOL_SIZE_def DEFAULT_PORT_def MAX_USERNAME_LENGTH_def MAX_SUBJECT_LENGTH_def
  MIN_USERNAME_LENGTH_def MAX_USERNAME_LENGTH_LIMIT_def MIN_SUBJECT_LENGTH_def
  MAX_SUBJECT_LENGTH_LIMIT_def MIN_HEARTBEAT_INTERVAL_S_def MIN_HEARTBEAT_TIMEOUT_S_def
  MESSAGE_DELIMITER_def DEFAULT_SERVER_LOG_def DEFAULT_CLIENT_LOG_def DEFAULT_BANLIST_def

definition color :: "string \<Rightarrow> string" where
  "color code = [ESC] @ ''['' @ code @ ''m''"

definition RESET :: string where "RESET = color ''0''"
definition YELLOW :: string where "YELLOW = color ''33''"
definition CYAN :: string where "CYAN = color ''36''"
definition GRAY :: string where "GRAY = color ''90''"
definition BRIGHT_RED :: string where "BRIGHT_RED = color ''1;31''"
definition BRIGHT_GREEN :: string where "BRIGHT_GREEN = color ''1;32''"
definition BRIGHT_YELLOW :: string where "BRIGHT_YELLOW = color ''1;33''"
definition BRIGHT_MAGENTA :: string where "BRIGHT_MAGENTA = color ''1;35''"
definition BRIGHT_CYAN :: string where "BRIGHT_CYAN = color ''1;36''"

end
