(* ===== verification/Unordered_Map.thy ===== *)
theory Unordered_Map
  imports Prelude
begin

text \<open>
  \<open>std::unordered_map\<close> and \<open>std::unordered_set\<close>. A map is the list of its entries in
  iteration order, with distinct keys; storing under a new key puts the node in front, as
  libstdc++ does for an empty bucket, and storing under a present key keeps its place.
  The standard leaves the order open: the facts the components use are those of the
  locale \<open>unordered_map\<close>, whose laws say nothing of the order.
\<close>

section \<open>The interface\<close>

locale unordered_map =
  fixes valid :: "'m \<Rightarrow> bool"
    and find :: "'m \<Rightarrow> 'k \<Rightarrow> 'v option"
    and put :: "'k \<Rightarrow> 'v \<Rightarrow> 'm \<Rightarrow> 'm"
    and remove :: "'k \<Rightarrow> 'm \<Rightarrow> 'm"
    and entries :: "'m \<Rightarrow> ('k \<times> 'v) list"
  assumes find_put: "valid m \<Longrightarrow> find (put k v m) = (find m)(k \<mapsto> v)"
    and find_remove: "valid m \<Longrightarrow> find (remove k m) = (find m)(k := None)"
    and valid_put: "valid m \<Longrightarrow> valid (put k v m)"
    and valid_remove: "valid m \<Longrightarrow> valid (remove k m)"
    and set_entries: "valid m \<Longrightarrow> set (entries m) = {(k, v). find m k = Some v}"
    and distinct_entries: "valid m \<Longrightarrow> distinct (map fst (entries m))"
begin

lemma find_put_same: "valid m \<Longrightarrow> find (put k v m) k = Some v"
  by (simp add: find_put)

lemma find_put_other: "valid m \<Longrightarrow> k' \<noteq> k \<Longrightarrow> find (put k v m) k' = find m k'"
  by (simp add: find_put)

lemma put_remove: "valid m \<Longrightarrow> find (remove k (put k v m)) = (find m)(k := None)"
  by (simp add: find_put find_remove valid_put)

lemma entries_put: "valid m \<Longrightarrow>
    set (entries (put k v m)) = insert (k, v) {e \<in> set (entries m). fst e \<noteq> k}"
  by (auto simp: set_entries find_put valid_put split: if_splits)

lemma entries_remove: "valid m \<Longrightarrow>
    set (entries (remove k m)) = {e \<in> set (entries m). fst e \<noteq> k}"
  by (auto simp: set_entries find_remove valid_remove split: if_splits)

lemma card_entries_put_new:
  assumes "valid m" and "find m k = None"
  shows "length (entries (put k v m)) = Suc (length (entries m))"
proof -
  have "\<And>m. valid m \<Longrightarrow> length (entries m) = card (set (map fst (entries m)))"
    using distinct_entries distinct_card by fastforce
  moreover have "fst ` set (entries (put k v m)) = insert k (fst ` set (entries m))"
    using assms by (force simp: entries_put set_entries)
  moreover have "k \<notin> fst ` set (entries m)"
    using assms by (auto simp: set_entries)
  ultimately show ?thesis
    using assms by (simp add: valid_put)
qed

end

section \<open>The model of the standard containers\<close>

type_synonym ('k, 'v) umap = "('k \<times> 'v) list"

definition um_valid :: "('k, 'v) umap \<Rightarrow> bool" where
  "um_valid m \<longleftrightarrow> distinct (map fst m)"

definition um_put :: "'k \<Rightarrow> 'v \<Rightarrow> ('k, 'v) umap \<Rightarrow> ('k, 'v) umap" where
  "um_put k v m = (if map_of m k = None then (k, v) # m else AList.update k v m)"

definition um_erase :: "'k \<Rightarrow> ('k, 'v) umap \<Rightarrow> ('k, 'v) umap" where
  "um_erase k m = AList.delete k m"

text \<open>A map filled by a sequence of stores, as the registration code does.\<close>

definition um_of :: "('k \<times> 'v) list \<Rightarrow> ('k, 'v) umap" where
  "um_of kvs = fold (\<lambda>(k, v). um_put k v) kvs []"

definition us_insert :: "'k \<Rightarrow> 'k list \<Rightarrow> 'k list" where
  "us_insert k s = (if k \<in> set s then s else k # s)"

definition us_erase :: "'k \<Rightarrow> 'k list \<Rightarrow> 'k list" where
  "us_erase k s = filter (\<lambda>x. x \<noteq> k) s"

lemma map_of_um_put: "map_of (um_put k v m) = (map_of m)(k \<mapsto> v)"
  by (auto simp: um_put_def update_conv')

lemma map_of_um_erase: "map_of (um_erase k m) = (map_of m)(k := None)"
  by (simp add: um_erase_def delete_conv')

lemma um_valid_put: "um_valid m \<Longrightarrow> um_valid (um_put k v m)"
  by (auto simp: um_valid_def um_put_def map_of_eq_None_iff distinct_update)

lemma um_valid_erase: "um_valid m \<Longrightarrow> um_valid (um_erase k m)"
  by (simp add: um_valid_def um_erase_def distinct_delete)

lemma um_valid_Nil [simp]: "um_valid []"
  by (simp add: um_valid_def)

lemma um_valid_Cons: "um_valid ((k, v) # m) \<longleftrightarrow> map_of m k = None \<and> um_valid m"
  by (auto simp: um_valid_def map_of_eq_None_iff)

interpretation um: unordered_map um_valid map_of um_put um_erase "\<lambda>m. m"
proof (unfold_locales, goal_cases)
  case 1 show ?case by (rule map_of_um_put)
next
  case 2 show ?case by (rule map_of_um_erase)
next
  case 3 then show ?case by (rule um_valid_put)
next
  case 4 then show ?case by (rule um_valid_erase)
next
  case 5 then show ?case by (auto simp: um_valid_def)
next
  case 6 then show ?case by (simp add: um_valid_def)
qed

lemmas um_simps [simp] = map_of_um_put map_of_um_erase

lemma fst_um_put: "fst ` set (um_put k v m) = insert k (fst ` set m)"
  by (metis dom_map_of_conv_image_fst dom_fun_upd map_of_um_put option.distinct(1))

lemma fst_um_erase: "fst ` set (um_erase k m) = fst ` set m - {k}"
  by (metis dom_map_of_conv_image_fst dom_fun_upd map_of_um_erase)

text \<open>Copying the entries of one map into another, with a function applied to the values.\<close>

lemma fold_put_find:
  assumes "um_valid es"
  shows "map_of (fold (\<lambda>(k, x). um_put k (f x)) es m) u =
    (case map_of es u of Some x \<Rightarrow> Some (f x) | None \<Rightarrow> map_of m u)"
  using assms
proof (induction es arbitrary: m)
  case (Cons e es)
  obtain a d where "e = (a, d)" by force
  with Cons show ?case by (simp add: um_valid_Cons split: option.split)
qed simp

lemma fold_put_valid: "um_valid m \<Longrightarrow> um_valid (fold (\<lambda>(k, x). um_put k (f x)) es m)"
  by (induction es arbitrary: m) (auto simp: um_valid_put)

lemma fold_put_keys: "fst ` set (fold (\<lambda>(k, x). um_put k (f x)) es m) = fst ` set m \<union> fst ` set es"
  by (induction es arbitrary: m) (simp_all add: case_prod_beta fst_um_put)

lemma um_valid_of: "um_valid (um_of kvs)"
  unfolding um_of_def by (rule fold_put_valid) simp

lemma um_erase_absent: "map_of m k = None \<Longrightarrow> um_erase k m = m"
  by (simp add: um_erase_def map_of_eq_None_iff delete_idem)

lemma um_erase_again: "um_erase k (um_put k v (um_erase k m)) = um_erase k m"
proof -
  have "map_of (um_erase k m) k = None" by (simp add: map_of_um_erase)
  then show ?thesis by (simp add: um_put_def um_erase_def delete_idem)
qed

lemma um_put_new: "map_of m k = None \<Longrightarrow> um_put k v m = (k, v) # m"
  by (simp add: um_put_def)

lemma set_us_insert [simp]: "set (us_insert k s) = insert k (set s)"
  by (auto simp: us_insert_def)

lemma set_us_erase [simp]: "set (us_erase k s) = set s - {k}"
  by (auto simp: us_erase_def)

lemma distinct_us_insert [simp]: "distinct (us_insert k s) \<longleftrightarrow> distinct s"
  by (auto simp: us_insert_def)

lemma distinct_us_erase [simp]: "distinct s \<Longrightarrow> distinct (us_erase k s)"
  by (simp add: us_erase_def)

end
