(* ===== verification/Process.thy ===== *)
theory Process
  imports Text_Utils Constants Unordered_Map
begin

text \<open>
  The process a program runs in, the part of the state that the server and the client
  share: the files, the two clocks, the sockets of the kernel, the standard streams, the
  \<open>Logger\<close> singleton (\<open>src/Utils/Logger.cpp\<close>) and the fields of the \<open>RuntimeConfig\<close>
  singleton. The server and the client extend this record with their own fields, so the
  operations here are polymorphic in the extension.

  A socket carries, for each direction, a sequence of bytes: \<open>rx fd\<close> is what is still to
  be read until the peer closes, \<open>wire\<close> lists what has been accepted by \<open>::send\<close>. What the
  environment decides is data of the record: whether a file can be opened, what \<open>::send\<close>
  returns for given bytes, how \<open>localtime\<close> and \<open>ctime\<close> print a time.
\<close>

section \<open>State\<close>

datatype LogLevel = DEBUG | INFO | WARNING | ERROR | CONNECT | DISCONNECT

datatype ConfigType = CT_INT | CT_BOOL

record ConfigDef =
  cd_type :: ConfigType
  defaultValue :: string
  minValue :: int
  maxValue :: int

text \<open>The format state of \<open>std::cout\<close> is sticky: \<open>std::left\<close> stays set until changed.\<close>

record ostream =
  os_text :: string
  os_left :: bool
  os_fill :: char

record istream =
  is_buf :: string
  is_eof :: bool
  is_fail :: bool

record process =
  files :: "string \<Rightarrow> string option"
  canOpen :: "string \<Rightarrow> bool"
  sysClock :: int
  steadyClock :: int
  localTime :: "int \<Rightarrow> string"
  ctimeOf :: "int \<Rightarrow> string"
  fdOpen :: "fd \<Rightarrow> bool"
  rx :: "fd \<Rightarrow> bytes"
  sendResult :: "fd \<Rightarrow> bytes \<Rightarrow> int"
  wire :: "(fd \<times> bytes) list"
  cin :: istream
  cout :: ostream
  cerr :: string
  logFile :: "string option"
  verbose :: bool
  config :: "(string, string) umap"
  definitions :: "(string, ConfigDef) umap"

text \<open>A process at its start, in an environment where every file opens and every send succeeds.\<close>

definition idle_process :: process where
  "idle_process =
     \<lparr>files = (\<lambda>_. None), canOpen = (\<lambda>_. True), sysClock = 0, steadyClock = 0,
      localTime = (\<lambda>_. []), ctimeOf = (\<lambda>_. []), fdOpen = (\<lambda>_. False), rx = (\<lambda>_. []),
      sendResult = (\<lambda>_ data. int (length data)), wire = [],
      cin = \<lparr>is_buf = [], is_eof = False, is_fail = False\<rparr>,
      cout = \<lparr>os_text = [], os_left = False, os_fill = CHR '' ''\<rparr>, cerr = [],
      logFile = None, verbose = False, config = [], definitions = []\<rparr>"

section \<open>Standard streams\<close>

definition print :: "string \<Rightarrow> 'a process_scheme \<Rightarrow> 'a process_scheme" where
  "print s p = p\<lparr>cout := (cout p)\<lparr>os_text := os_text (cout p) @ s\<rparr>\<rparr>"

text \<open>\<open>std::cout << std::setw(n) << s\<close>.\<close>

definition padded :: "ostream \<Rightarrow> nat \<Rightarrow> string \<Rightarrow> string" where
  "padded os n s =
     (let fill = replicate (n - length s) (os_fill os)
      in if os_left os then s @ fill else fill @ s)"

definition print_setw :: "nat \<Rightarrow> string \<Rightarrow> 'a process_scheme \<Rightarrow> 'a process_scheme" where
  "print_setw n s p = print (padded (cout p) n s) p"

definition set_left :: "'a process_scheme \<Rightarrow> 'a process_scheme" where
  "set_left p = p\<lparr>cout := (cout p)\<lparr>os_left := True\<rparr>\<rparr>"

definition set_fill :: "char \<Rightarrow> 'a process_scheme \<Rightarrow> 'a process_scheme" where
  "set_fill c p = p\<lparr>cout := (cout p)\<lparr>os_fill := c\<rparr>\<rparr>"

text \<open>\<open>std::getline(std::cin, line)\<close>: the line ("" if none could be read) and the new stream.\<close>

definition is_good :: "istream \<Rightarrow> bool" where
  "is_good i \<longleftrightarrow> \<not> is_eof i \<and> \<not> is_fail i"

definition getline :: "istream \<Rightarrow> string \<times> istream" where
  "getline i =
     (if \<not> is_good i then ([], i\<lparr>is_fail := True\<rparr>)
      else let l = takeWhile (\<lambda>c. c \<noteq> NL) (is_buf i);
               r = dropWhile (\<lambda>c. c \<noteq> NL) (is_buf i)
           in case r of
                _ # r' \<Rightarrow> (l, i\<lparr>is_buf := r'\<rparr>)
              | [] \<Rightarrow> (l, i\<lparr>is_buf := [], is_eof := True, is_fail := (l = [])\<rparr>))"

text \<open>\<open>std::cin.get()\<close> and \<open>std::cin.ignore()\<close>: one character is taken, whatever it is.\<close>

definition istream_get :: "istream \<Rightarrow> istream" where
  "istream_get i =
     (if \<not> is_good i then i\<lparr>is_fail := True\<rparr>
      else case is_buf i of _ # r \<Rightarrow> i\<lparr>is_buf := r\<rparr> | [] \<Rightarrow> i\<lparr>is_eof := True, is_fail := True\<rparr>)"

definition istream_ignore :: "istream \<Rightarrow> istream" where
  "istream_ignore i =
     (if \<not> is_good i then i\<lparr>is_fail := True\<rparr>
      else case is_buf i of _ # r \<Rightarrow> i\<lparr>is_buf := r\<rparr> | [] \<Rightarrow> i\<lparr>is_eof := True\<rparr>)"

text \<open>
  \<open>std::cin >> n\<close> for an \<open>int\<close>: white space is skipped, a sign and the digits are taken. The
  first component is what is stored in \<open>n\<close>; \<open>None\<close> when nothing is, because the stream was
  not good or ended with the white space. Without a digit 0 is stored, out of range the
  nearest bound, and both set the failure bit.
\<close>

definition istream_int :: "istream \<Rightarrow> int option \<times> istream" where
  "istream_int i =
     (if \<not> is_good i then (None, i\<lparr>is_fail := True\<rparr>)
      else let t = dropWhile isspace (is_buf i)
      in if t = [] then (None, i\<lparr>is_buf := [], is_eof := True, is_fail := True\<rparr>)
      else let neg = (hd t = CHR ''-'');
               r = (if hd t = CHR ''-'' \<or> hd t = CHR ''+'' then tl t else t);
               ds = takeWhile isdigit r;
               rest = dropWhile isdigit r;
               v = (if neg then - digits_value ds else digits_value ds);
               j = i\<lparr>is_buf := rest, is_eof := (rest = [])\<rparr>
      in if ds = [] then (Some 0, j\<lparr>is_fail := True\<rparr>)
      else if v < INT_MIN then (Some INT_MIN, j\<lparr>is_fail := True\<rparr>)
      else if INT_MAX < v then (Some INT_MAX, j\<lparr>is_fail := True\<rparr>)
      else (Some v, j))"

section \<open>Files, clocks and sockets\<close>

definition append_file :: "string \<Rightarrow> string \<Rightarrow> 'a process_scheme \<Rightarrow> 'a process_scheme" where
  "append_file f s p =
     p\<lparr>files := (files p)(f \<mapsto> (case files p f of None \<Rightarrow> s | Some c \<Rightarrow> c @ s))\<rparr>"

definition sleep_ns :: "int \<Rightarrow> 'a process_scheme \<Rightarrow> 'a process_scheme" where
  "sleep_ns d p = p\<lparr>sysClock := sysClock p + d, steadyClock := steadyClock p + d\<rparr>"

definition os_close :: "fd \<Rightarrow> 'a process_scheme \<Rightarrow> 'a process_scheme" where
  "os_close fd p = p\<lparr>fdOpen := (fdOpen p)(fd := False)\<rparr>"

text \<open>\<open>::send\<close> returns the number of bytes it took, or -1.\<close>

definition os_send :: "fd \<Rightarrow> bytes \<Rightarrow> 'a process_scheme \<Rightarrow> int \<times> 'a process_scheme" where
  "os_send fd data p =
     (if fdOpen p fd then
        (let r = sendResult p fd data
         in (r, if r < 0 then p else p\<lparr>wire := wire p @ [(fd, take (nat r) data)]\<rparr>))
      else (-1, p))"

text \<open>
  \<open>recv\<close> with \<open>MSG_WAITALL\<close>: the number of bytes asked for, or fewer when the peer closes
  first; -1 (no data) on a descriptor that is not open.
\<close>

definition os_recv :: "fd \<Rightarrow> nat \<Rightarrow> 'a process_scheme \<Rightarrow> int \<times> bytes \<times> 'a process_scheme" where
  "os_recv fd n p =
     (if fdOpen p fd then
        (let bs = take n (rx p fd)
         in (int (length bs), bs, p\<lparr>rx := (rx p)(fd := drop n (rx p fd))\<rparr>))
      else (-1, [], p))"

text \<open>The bytes sent to a descriptor so far, and a descriptor that takes all it is given.\<close>

definition sent_to :: "fd \<Rightarrow> 'a process_scheme \<Rightarrow> bytes" where
  "sent_to fd p = concat (map snd (filter (\<lambda>e. fst e = fd) (wire p)))"

definition takes_all :: "'a process_scheme \<Rightarrow> fd \<Rightarrow> bool" where
  "takes_all p fd \<longleftrightarrow> fdOpen p fd \<and> (\<forall>data. sendResult p fd data = int (length data))"

section \<open>Calendar time\<close>

text \<open>\<open>std::ctime\<close> ends its text with a newline, which \<open>formatTimestamp\<close> takes off.\<close>

definition formatTimestamp :: "int \<Rightarrow> 'a process_scheme \<Rightarrow> string" where
  "formatTimestamp tp p =
     (let timeStr = ctimeOf p (to_time_t tp)
      in if timeStr \<noteq> [] \<and> last timeStr = NL then butlast timeStr else timeStr)"

section \<open>Logger\<close>

definition levelToString :: "LogLevel \<Rightarrow> string" where
  "levelToString level =
     (case level of DEBUG \<Rightarrow> ''DEBUG'' | INFO \<Rightarrow> ''INFO'' | WARNING \<Rightarrow> ''WARNING''
      | ERROR \<Rightarrow> ''ERROR'' | CONNECT \<Rightarrow> ''CONNECT'' | DISCONNECT \<Rightarrow> ''DISCONNECT'')"

definition getColorForLevel :: "LogLevel \<Rightarrow> string" where
  "getColorForLevel level =
     (case level of DEBUG \<Rightarrow> GRAY | INFO \<Rightarrow> BRIGHT_CYAN | WARNING \<Rightarrow> BRIGHT_YELLOW
      | ERROR \<Rightarrow> BRIGHT_RED | CONNECT \<Rightarrow> BRIGHT_GREEN | DISCONNECT \<Rightarrow> BRIGHT_MAGENTA)"

definition getCurrentTimestamp :: "'a process_scheme \<Rightarrow> string" where
  "getCurrentTimestamp p =
     (let now = sysClock p;
          ms = to_string (tmod (tdiv now 1000000) 1000)
      in localTime p (to_time_t now) @ ''.'' @ replicate (3 - length ms) (CHR ''0'') @ ms)"

definition logger_log :: "LogLevel \<Rightarrow> string \<Rightarrow> 'a process_scheme \<Rightarrow> 'a process_scheme" where
  "logger_log level message p =
     (let timestamp = getCurrentTimestamp p;
          levelStr = levelToString level;
          logEntry = ''['' @ timestamp @ ''] ['' @ levelStr @ ''] '' @ message;
          p1 = (case logFile p of Some f \<Rightarrow> append_file f (logEntry @ [NL]) p | None \<Rightarrow> p)
      in if level \<noteq> DEBUG \<or> verbose p
         then print (getColorForLevel level @ ''['' @ timestamp @ ''] ['' @ levelStr @ '']''
                       @ RESET @ '' '' @ message @ [NL]) p1
         else p1)"

definition setLogFile :: "string \<Rightarrow> 'a process_scheme \<Rightarrow> 'a process_scheme" where
  "setLogFile filename p =
     (if canOpen p filename then append_file filename [] (p\<lparr>logFile := Some filename\<rparr>)
      else p\<lparr>logFile := None,
             cerr := cerr p @ ''Error: Cannot open log file: '' @ filename @ [NL]\<rparr>)"

definition setVerbose :: "bool \<Rightarrow> 'a process_scheme \<Rightarrow> 'a process_scheme" where
  "setVerbose enabled p = p\<lparr>verbose := enabled\<rparr>"

abbreviation "LOG_DEBUG \<equiv> logger_log DEBUG"
abbreviation "LOG_INFO \<equiv> logger_log INFO"
abbreviation "LOG_WARNING \<equiv> logger_log WARNING"
abbreviation "LOG_ERROR \<equiv> logger_log ERROR"
abbreviation "LOG_CONNECT \<equiv> logger_log CONNECT"
abbreviation "LOG_DISCONNECT \<equiv> logger_log DISCONNECT"

section \<open>Frame facts\<close>

lemma print_frame [simp, frame]:
  "files (print s p) = files p" "canOpen (print s p) = canOpen p"
  "sysClock (print s p) = sysClock p" "steadyClock (print s p) = steadyClock p"
  "fdOpen (print s p) = fdOpen p" "rx (print s p) = rx p" "sendResult (print s p) = sendResult p"
  "wire (print s p) = wire p" "cin (print s p) = cin p" "logFile (print s p) = logFile p"
  "config (print s p) = config p" "definitions (print s p) = definitions p"
  "verbose (print s p) = verbose p" "process.more (print s p) = process.more p"
  "localTime (print s p) = localTime p" "ctimeOf (print s p) = ctimeOf p"
  by (simp_all add: print_def)

lemma append_file_frame [simp, frame]:
  "canOpen (append_file f s p) = canOpen p" "cout (append_file f s p) = cout p"
  "sysClock (append_file f s p) = sysClock p" "steadyClock (append_file f s p) = steadyClock p"
  "fdOpen (append_file f s p) = fdOpen p" "rx (append_file f s p) = rx p"
  "sendResult (append_file f s p) = sendResult p" "wire (append_file f s p) = wire p"
  "cin (append_file f s p) = cin p" "logFile (append_file f s p) = logFile p"
  "config (append_file f s p) = config p" "definitions (append_file f s p) = definitions p"
  "verbose (append_file f s p) = verbose p" "process.more (append_file f s p) = process.more p"
  by (simp_all add: append_file_def)

lemma logger_log_frame [simp, frame]:
  "canOpen (logger_log l m p) = canOpen p"
  "sysClock (logger_log l m p) = sysClock p" "steadyClock (logger_log l m p) = steadyClock p"
  "fdOpen (logger_log l m p) = fdOpen p" "rx (logger_log l m p) = rx p"
  "sendResult (logger_log l m p) = sendResult p" "wire (logger_log l m p) = wire p"
  "cin (logger_log l m p) = cin p" "logFile (logger_log l m p) = logFile p"
  "config (logger_log l m p) = config p" "definitions (logger_log l m p) = definitions p"
  "verbose (logger_log l m p) = verbose p" "process.more (logger_log l m p) = process.more p"
  by (simp_all add: logger_log_def Let_def split: option.split)

lemma os_close_frame [simp, frame]:
  "files (os_close fd p) = files p" "canOpen (os_close fd p) = canOpen p"
  "sysClock (os_close fd p) = sysClock p" "steadyClock (os_close fd p) = steadyClock p"
  "rx (os_close fd p) = rx p" "sendResult (os_close fd p) = sendResult p"
  "wire (os_close fd p) = wire p" "cin (os_close fd p) = cin p" "cout (os_close fd p) = cout p"
  "logFile (os_close fd p) = logFile p" "config (os_close fd p) = config p"
  "definitions (os_close fd p) = definitions p" "process.more (os_close fd p) = process.more p"
  "fdOpen (os_close fd p) = (fdOpen p)(fd := False)"
  by (simp_all add: os_close_def)

lemma sent_to_cong: "wire p = wire q \<Longrightarrow> sent_to k p = sent_to k q"
  by (simp add: sent_to_def)

lemma sent_to_log [simp, frame]: "sent_to k (logger_log l m p) = sent_to k p"
  "sent_to k (print x p) = sent_to k p" "sent_to k (os_close j p) = sent_to k p"
  by (simp_all add: sent_to_def)

lemma takes_all_cong:
  "fdOpen p = fdOpen q \<Longrightarrow> sendResult p = sendResult q \<Longrightarrow> takes_all p = takes_all q"
  by (simp add: takes_all_def fun_eq_iff)

lemma takes_all_log [simp, frame]: "takes_all (logger_log l m p) = takes_all p"
  by (rule takes_all_cong) simp_all

lemma log_appends_line:
  "logFile p = Some f \<Longrightarrow> files (logger_log l m p) f =
     Some ((case files p f of None \<Rightarrow> [] | Some c \<Rightarrow> c) @ ''['' @ getCurrentTimestamp p @ ''] [''
        @ levelToString l @ ''] '' @ m @ [NL])"
  by (simp add: logger_log_def Let_def append_file_def split: option.split)

lemma logger_log_files_other:
  "logFile p \<noteq> Some f \<Longrightarrow> files (logger_log l m p) f = files p f"
  by (auto simp: logger_log_def Let_def append_file_def split: option.split)

end
