(* ===== verification/Message_Parser.thy ===== *)
theory Message_Parser
  imports Text_Utils Constants
begin

text \<open>
  The delimited line protocol: \<open>MessageParser::parse\<close> and \<open>MessageParser::build\<close> of
  \<open>src/Utils/MessageParser.cpp\<close>, and the locale \<open>codec\<close>, an encoder with the decoder
  that inverts it on the values it can carry.
\<close>

section \<open>Codecs\<close>

locale codec =
  fixes enc :: "'a \<Rightarrow> 'b"
    and dec :: "'b \<Rightarrow> 'a option"
    and carries :: "'a \<Rightarrow> bool"
  assumes dec_enc: "carries x \<Longrightarrow> dec (enc x) = Some x"
begin

lemma enc_inject: "carries x \<Longrightarrow> carries y \<Longrightarrow> enc x = enc y \<longleftrightarrow> x = y"
  using dec_enc by (metis option.inject)

lemma dec_enc_list: "(\<forall>x\<in>set xs. carries x) \<Longrightarrow> map (\<lambda>x. dec (enc x)) xs = map Some xs"
  by (simp add: dec_enc)

end

section \<open>Parsing and building\<close>

record ParsedMessage =
  command :: string
  arguments :: "string list"
  isValid :: bool

definition no_message :: ParsedMessage where
  "no_message = \<lparr>command = [], arguments = [], isValid = False\<rparr>"

definition argCount :: "ParsedMessage \<Rightarrow> nat" where
  "argCount m = length (arguments m)"

definition arg :: "ParsedMessage \<Rightarrow> nat \<Rightarrow> string" where
  "arg m index = (if index < length (arguments m) then arguments m ! index else [])"

definition parse :: "string \<Rightarrow> ParsedMessage" where
  "parse rawMessage =
     (if rawMessage = [] then no_message
      else let cleaned = (if last rawMessage = NL then butlast rawMessage else rawMessage)
           in case split cleaned MESSAGE_DELIMITER of
                [] \<Rightarrow> no_message
              | p # ps \<Rightarrow> \<lparr>command = p, arguments = ps, isValid = True\<rparr>)"

definition build :: "string \<Rightarrow> string list \<Rightarrow> string" where
  "build cmd args = cmd @ concat (map (\<lambda>a. MESSAGE_DELIMITER @ a) args) @ [NL]"

lemma build_not_Nil [simp]: "build cmd args \<noteq> []"
  by (simp add: build_def)

lemma last_build [simp]: "last (build cmd args) = NL"
  by (simp add: build_def)

lemma butlast_build: "butlast (build cmd args) = join [CHR '';''] (cmd # args)"
  by (simp add: build_def join_concat MESSAGE_DELIMITER_def butlast_append)

lemma length_build: "length (build cmd args) = Suc (length cmd + (\<Sum>a\<leftarrow>args. Suc (length a)))"
  by (induction args) (auto simp: build_def MESSAGE_DELIMITER_def)

text \<open>A message the line protocol can carry: no field holds the delimiter.\<close>

definition wf_fields :: "string \<times> string list \<Rightarrow> bool" where
  "wf_fields = (\<lambda>(cmd, args). (cmd \<noteq> [] \<or> args \<noteq> []) \<and> (\<forall>f\<in>set (cmd # args). CHR '';'' \<notin> set f))"

lemma parse_build:
  assumes "wf_fields (cmd, args)"
  shows "parse (build cmd args) = \<lparr>command = cmd, arguments = args, isValid = True\<rparr>"
proof -
  have "join [CHR '';''] (cmd # args) \<noteq> []"
    using assms by (cases args) (auto simp: wf_fields_def join_Cons)
  moreover have "splitc (CHR '';'') (join [CHR '';''] (cmd # args)) = cmd # args"
    using assms by (intro splitc_join) (auto simp: wf_fields_def)
  ultimately show ?thesis
    by (simp add: parse_def butlast_build split_char MESSAGE_DELIMITER_def)
qed

text \<open>What \<open>parse\<close> returns holds no delimiter, whatever the bytes received.\<close>

lemma split_no_delim: "g \<in> set (split s MESSAGE_DELIMITER) \<Longrightarrow> CHR '';'' \<notin> set g"
  by (auto simp: split_char MESSAGE_DELIMITER_def dest: splitc_pieces split: if_splits)

lemma parse_cases:
  obtains "parse raw = no_message"
  | s p ps where "split s MESSAGE_DELIMITER = p # ps"
      "parse raw = \<lparr>command = p, arguments = ps, isValid = True\<rparr>"
proof (cases "split (if last raw = NL then butlast raw else raw) MESSAGE_DELIMITER")
  case Nil
  then show ?thesis by (intro that(1)) (simp add: parse_def)
next
  case (Cons p ps)
  then show ?thesis
    by (cases "raw = []") (auto intro: that simp: parse_def)
qed

lemma parse_no_delim:
  assumes "f = command (parse raw) \<or> f \<in> set (arguments (parse raw))"
  shows "CHR '';'' \<notin> set f"
proof (cases raw rule: parse_cases)
  case 1
  with assms show ?thesis by (auto simp: no_message_def)
next
  case (2 s p ps)
  with assms have "f \<in> set (split s MESSAGE_DELIMITER)" by auto
  then show ?thesis by (rule split_no_delim)
qed

lemma isValid_parse: "isValid (parse raw) \<longleftrightarrow> raw \<noteq> [] \<and> raw \<noteq> [NL]"
  by (cases raw rule: rev_cases)
     (auto simp: parse_def no_message_def split_char MESSAGE_DELIMITER_def Let_def split: list.splits)

text \<open>The decoder half as an option, and the line protocol as a codec.\<close>

definition parse_fields :: "string \<Rightarrow> (string \<times> string list) option" where
  "parse_fields raw =
     (let m = parse raw in if isValid m then Some (command m, arguments m) else None)"

interpretation line: codec "\<lambda>(cmd, args). build cmd args" parse_fields wf_fields
  by unfold_locales (auto simp: parse_fields_def parse_build Let_def)

section \<open>Properties\<close>



text \<open>\<open>parse\<close> accepts exactly the non-empty lines, never yields a field with a delimiter,
  and loses nothing but the final newline: building its fields again gives the line, with
  one newline at its end.\<close>

theorem parse_lossless:
  assumes "raw \<noteq> []" and "raw \<noteq> [NL]"
  shows "isValid (parse raw) \<and> CHR '';'' \<notin> set (command (parse raw)) \<and>
    (\<forall>a\<in>set (arguments (parse raw)). CHR '';'' \<notin> set a) \<and>
    build (command (parse raw)) (arguments (parse raw)) = (if last raw = NL then raw else raw @ [NL])"
proof -
  define s where "s = (if last raw = NL then butlast raw else raw)"
  from assms have s: "s \<noteq> []" by (cases raw rule: rev_cases) (auto simp: s_def)
  have parse: "parse raw = \<lparr>command = hd (splitc (CHR '';'') s), arguments = tl (splitc (CHR '';'') s), isValid = True\<rparr>"
    using assms s by (simp add: parse_def s_def[symmetric] MESSAGE_DELIMITER_def split_char split: list.split)
  have "build (hd (splitc (CHR '';'') s)) (tl (splitc (CHR '';'') s)) = s @ [NL]"
    using join_splitc[of "CHR '';''" s]
    by (cases "splitc (CHR '';'') s") (simp_all add: build_def MESSAGE_DELIMITER_def join_concat)
  moreover have "s @ [NL] = (if last raw = NL then raw else raw @ [NL])"
    using assms(1) by (simp add: s_def) (metis append_butlast_last_id)
  ultimately show ?thesis using parse parse_no_delim[of _ raw] by auto
qed

theorem parse_lossless_witness:
  "build (command (parse '';a;'')) (arguments (parse '';a;'')) = '';a;'' @ [NL]"
  using parse_lossless[of "'';a;''"] by simp

end
