(* ===== verification/Network_Stream.thy ===== *)
theory Network_Stream
  imports Process Message_Parser
begin

text \<open>
  Framing of messages on a socket: \<open>src/Utils/NetworkStream.cpp\<close>. A frame is the length of
  the message as a 32-bit big-endian integer, then its bytes. The locale \<open>framing\<close> is what
  the rest of the program relies on: a decoder that takes one frame off a byte sequence.
\<close>

section \<open>Framings\<close>

locale framing =
  fixes frame :: "'m \<Rightarrow> bytes"
    and unframe :: "bytes \<Rightarrow> ('m \<times> bytes) option"
    and carries :: "'m \<Rightarrow> bool"
  assumes unframe_frame: "carries m \<Longrightarrow> unframe (frame m @ rest) = Some (m, rest)"
begin

text \<open>Reading up to \<open>n\<close> frames.\<close>

primrec unframe_many :: "nat \<Rightarrow> bytes \<Rightarrow> 'm list \<times> bytes" where
  "unframe_many 0 bs = ([], bs)"
| "unframe_many (Suc n) bs =
     (case unframe bs of None \<Rightarrow> ([], bs)
      | Some (m, rest) \<Rightarrow> (let (ms, r) = unframe_many n rest in (m # ms, r)))"

lemma unframe_many_frames:
  "(\<forall>m\<in>set ms. carries m) \<Longrightarrow>
   unframe_many (length ms) (concat (map frame ms) @ rest) = (ms, rest)"
  by (induction ms) (auto simp: unframe_frame)

lemma frames_inject:
  assumes "\<forall>m\<in>set ms. carries m" and "\<forall>m\<in>set ns. carries m" and "length ms = length ns"
    and "concat (map frame ms) = concat (map frame ns)"
  shows "ms = ns"
proof -
  have "unframe_many (length ms) (concat (map frame ms) @ []) = (ms, [])"
    using assms(1) by (rule unframe_many_frames)
  moreover have "unframe_many (length ns) (concat (map frame ns) @ []) = (ns, [])"
    using assms(2) by (rule unframe_many_frames)
  ultimately show ?thesis using assms(3,4) by simp
qed

lemma frame_no_prefix:
  assumes "carries m" and "carries n" and "frame m @ r = frame n @ s"
  shows "m = n \<and> r = s"
proof -
  have "Some (m, r) = Some (n, s)"
    using unframe_frame[OF assms(1), of r] unframe_frame[OF assms(2), of s]
    unfolding assms(3) by (rule trans[OF sym])
  then show ?thesis by simp
qed

end

text \<open>A framing is a codec on single frames.\<close>

sublocale framing \<subseteq> single: codec frame "\<lambda>bs. map_option fst (unframe bs)" carries
  by unfold_locales (use unframe_frame[of _ "[]"] in simp)

section \<open>Encoding\<close>

definition htonl_bytes :: "u32 \<Rightarrow> bytes" where
  "htonl_bytes w = map (\<lambda>k. char_of (unat (drop_bit k w) mod 256)) [24, 16, 8, 0]"

definition ntohl_bytes :: "bytes \<Rightarrow> u32" where
  "ntohl_bytes bs = word_of_nat (foldl (\<lambda>a c. a * 256 + code_of c) 0 bs)"

definition encodeMessage :: "string \<Rightarrow> bytes" where
  "encodeMessage message = htonl_bytes (word_of_nat (length message)) @ message"

lemma length_htonl [simp]: "length (htonl_bytes w) = 4"
  by (simp add: htonl_bytes_def)

lemma base256:
  assumes "n < 2 ^ 32"
  shows "(((n div 16777216 mod 256) * 256 + n div 65536 mod 256) * 256 + n div 256 mod 256) * 256
    + n mod 256 = (n :: nat)"
proof -
  have join: "m div 256 * 256 + m mod 256 = m" for m :: nat by (rule div_mult_mod_eq)
  have top: "n div 16777216 mod 256 = n div 16777216" using assms by (simp add: less_mult_imp_div_less)
  have steps: "n div 16777216 = n div 65536 div 256" "n div 65536 = n div 256 div 256"
    by (simp_all add: div_mult2_eq[symmetric])
  show ?thesis unfolding top unfolding steps(1) join unfolding steps(2) join ..
qed

lemma ntohl_htonl: "ntohl_bytes (htonl_bytes w) = w"
proof -
  have "unat w < 2 ^ 32" using unsigned_less[of w] by simp
  then have "foldl (\<lambda>a c. a * 256 + code_of c) 0 (htonl_bytes w) = unat w"
    using base256[of "unat w"]
    by (simp add: htonl_bytes_def unat_drop_bit_eq drop_bit_eq_div[where 'a = nat])
  then show ?thesis
    unfolding ntohl_bytes_def by simp
qed

lemma byte_of_div: "c < 256 \<Longrightarrow> (x * 256 + c) mod 256 = c" "c < 256 \<Longrightarrow> (x * 256 + c) div 256 = (x :: nat)"
  by (auto simp: mod_add_eq[symmetric] div_add1_eq)

text \<open>The header is determined by the length it stands for.\<close>

lemma htonl_ntohl:
  assumes "length bs = 4"
  shows "htonl_bytes (ntohl_bytes bs) = bs"
proof -
  from assms obtain a b c d where bs: "bs = [a, b, c, d]"
    by (auto simp: eval_nat_numeral length_Suc_conv)
  have len32: "LENGTH(32) = 32" by simp
  let ?n = "((code_of a * 256 + code_of b) * 256 + code_of c) * 256 + code_of d"
  have bytes: "code_of x < 256" for x :: char by simp
  have small: "code_of x \<le> 255" for x :: char using bytes[of x] by linarith
  have "?n < 2 ^ 32" using small[of a] small[of b] small[of c] small[of d] by simp
  then have "unat (word_of_nat ?n :: u32) = ?n" by (simp only: unat_of_nat mod_less len32)
  then have n: "unat (ntohl_bytes bs) = ?n" by (simp only: ntohl_bytes_def bs foldl_Cons foldl_Nil) simp
  have d1: "?n div 256 = (code_of a * 256 + code_of b) * 256 + code_of c"
    by (rule byte_of_div(2)[OF bytes])
  have "?n div 65536 = ?n div 256 div 256" using div_mult2_eq[of ?n 256 256] by simp
  then have d2: "?n div 65536 = code_of a * 256 + code_of b"
    unfolding d1 by (simp only: byte_of_div(2)[OF bytes])
  have "?n div 16777216 = ?n div 65536 div 256" using div_mult2_eq[of ?n 65536 256] by simp
  then have "?n div 16777216 = code_of a"
    unfolding d2 by (simp only: byte_of_div(2)[OF bytes])
  note divs = this d1 d2
  have "htonl_bytes (ntohl_bytes bs) =
      map char_of [?n div 16777216 mod 256, ?n div 65536 mod 256, ?n div 256 mod 256, ?n mod 256]"
    unfolding htonl_bytes_def
    by (simp only: unat_drop_bit_eq drop_bit_eq_div[where 'a = nat] n list.map) simp
  then show ?thesis
    unfolding divs by (simp only: byte_of_div(1)[OF bytes] bs) simp
qed

section \<open>Decoding\<close>

definition decodeMessage :: "fd \<Rightarrow> 'a process_scheme \<Rightarrow> bool \<times> string \<times> 'a process_scheme" where
  "decodeMessage fd p =
     (let (bytesRead, hdr, p1) = os_recv fd 4 p
      in if bytesRead \<noteq> 4 then (False, [], p1)
         else let len = ntohl_bytes hdr
              in if len = 0 \<or> unat len > MAX_MESSAGE_SIZE then (False, [], p1)
                 else let (bytesRead, message, p2) = os_recv fd (unat len) p1
                      in if bytesRead \<noteq> int (unat len) then (False, [], p2)
                         else (True, message, p2))"

text \<open>The same on the bytes alone: the decoder of the framing.\<close>

definition decode_bytes :: "bytes \<Rightarrow> (string \<times> bytes) option" where
  "decode_bytes bs =
     (let len = unat (ntohl_bytes (take 4 bs)); r = drop 4 bs
      in if length bs < 4 \<or> len = 0 \<or> len > MAX_MESSAGE_SIZE \<or> length r < len then None
         else Some (take len r, drop len r))"

definition sendable :: "string \<Rightarrow> bool" where
  "sendable m \<longleftrightarrow> 0 < length m \<and> length m \<le> MAX_MESSAGE_SIZE"

lemma sendable_unat: "sendable m \<Longrightarrow> unat (word_of_nat (length m) :: u32) = length m"
  by (simp add: sendable_def MAX_MESSAGE_SIZE_def unat_of_nat)

lemma decode_encode: "sendable m \<Longrightarrow> decode_bytes (encodeMessage m @ rest) = Some (m, rest)"
  by (simp add: decode_bytes_def encodeMessage_def ntohl_htonl sendable_unat Let_def)
     (auto simp: sendable_def)

interpretation net: framing encodeMessage decode_bytes sendable
  by unfold_locales (rule decode_encode)

lemma decode_bytes_bounds:
  "decode_bytes bs = Some (m, rest) \<Longrightarrow> sendable m \<and> length bs = 4 + length m + length rest"
  by (auto simp: decode_bytes_def sendable_def Let_def split: if_splits)

lemma decode_bytes_frame:
  assumes "decode_bytes bs = Some (m, rest)"
  shows "bs = encodeMessage m @ rest"
proof -
  let ?l = "unat (ntohl_bytes (take 4 bs))"
  from assms have m: "m = take ?l (drop 4 bs)" "rest = drop ?l (drop 4 bs)" "length m = ?l"
    and four: "length (take 4 bs) = 4"
    by (auto simp: decode_bytes_def Let_def simp del: drop_drop split: if_splits)
  have "htonl_bytes (word_of_nat (length m)) = take 4 bs"
    unfolding m(3) using htonl_ntohl[OF four] by simp
  moreover have "m @ rest = drop 4 bs" unfolding m(1,2) by (rule append_take_drop_id)
  ultimately show ?thesis by (simp add: encodeMessage_def)
qed

lemma decodeMessage_open:
  assumes "fdOpen p fd"
  shows "decodeMessage fd p = (ok, m, p') \<Longrightarrow>
     (case decode_bytes (rx p fd) of
        None \<Rightarrow> \<not> ok \<and> m = []
      | Some (m', rest) \<Rightarrow> ok \<and> m = m' \<and> p' = p\<lparr>rx := (rx p)(fd := rest)\<rparr>)"
  using assms
  by (auto simp: decodeMessage_def decode_bytes_def os_recv_def Let_def unat_eq_0 min_def
      simp del: of_nat_unat split: if_splits)

lemma decodeMessage_closed: "\<not> fdOpen p fd \<Longrightarrow> decodeMessage fd p = (False, [], p)"
  by (simp add: decodeMessage_def os_recv_def)

section \<open>The stream object\<close>

record netstream =
  socketFd :: fd
  connected :: bool

definition NetworkStream :: "fd \<Rightarrow> netstream" where
  "NetworkStream fd = \<lparr>socketFd = fd, connected = (0 \<le> fd)\<rparr>"

definition ns_send ::
  "string \<Rightarrow> netstream \<Rightarrow> 'a process_scheme \<Rightarrow> bool \<times> netstream \<times> 'a process_scheme" where
  "ns_send message ns p =
     (if \<not> connected ns then (False, ns, p)
      else let (bytesSent, p1) = os_send (socketFd ns) (encodeMessage message) p
           in if bytesSent < 0 then (False, ns\<lparr>connected := False\<rparr>, p1)
              else (True, ns, p1))"

definition ns_receive ::
  "netstream \<Rightarrow> 'a process_scheme \<Rightarrow> string option \<times> netstream \<times> 'a process_scheme" where
  "ns_receive ns p =
     (if \<not> connected ns then (None, ns, p)
      else let (success, message, p1) = decodeMessage (socketFd ns) p
           in if \<not> success then (None, ns\<lparr>connected := False\<rparr>, p1)
              else (Some message, ns, p1))"

text \<open>
  \<open>Network::NetworkStream stream(fd); stream.send(message)\<close>, the idiom of every sender of
  the program: a temporary stream object for one message.
\<close>

definition send_on :: "fd \<Rightarrow> string \<Rightarrow> 'a process_scheme \<Rightarrow> bool \<times> 'a process_scheme" where
  "send_on fd message p = (let (ok, _, p1) = ns_send message (NetworkStream fd) p in (ok, p1))"

lemma send_on_frame [simp, frame]:
  "files (snd (send_on fd m p)) = files p" "canOpen (snd (send_on fd m p)) = canOpen p"
  "sysClock (snd (send_on fd m p)) = sysClock p"
  "steadyClock (snd (send_on fd m p)) = steadyClock p"
  "fdOpen (snd (send_on fd m p)) = fdOpen p" "rx (snd (send_on fd m p)) = rx p"
  "sendResult (snd (send_on fd m p)) = sendResult p" "cin (snd (send_on fd m p)) = cin p"
  "cout (snd (send_on fd m p)) = cout p" "logFile (snd (send_on fd m p)) = logFile p"
  "config (snd (send_on fd m p)) = config p"
  "definitions (snd (send_on fd m p)) = definitions p"
  "process.more (snd (send_on fd m p)) = process.more p"
  by (simp_all add: send_on_def ns_send_def os_send_def Let_def split: prod.splits if_splits)

lemma takes_all_send_on [simp, frame]: "takes_all (snd (send_on fd m p)) = takes_all p"
  by (rule takes_all_cong) simp_all

lemma fst_send_on: "fst (send_on fd m p) \<longleftrightarrow>
    0 \<le> fd \<and> fdOpen p fd \<and> 0 \<le> sendResult p fd (encodeMessage m)"
  by (auto simp: send_on_def ns_send_def os_send_def NetworkStream_def Let_def)

lemma wire_send_on_all:
  "takes_all p fd \<Longrightarrow> 0 \<le> fd \<Longrightarrow> wire (snd (send_on fd m p)) = wire p @ [(fd, encodeMessage m)]"
  by (simp add: send_on_def ns_send_def os_send_def NetworkStream_def takes_all_def Let_def)

lemma wire_send_on_failed: "\<not> fst (send_on fd m p) \<Longrightarrow> wire (snd (send_on fd m p)) = wire p"
  by (auto simp: send_on_def ns_send_def os_send_def NetworkStream_def Let_def split: if_splits)

lemma sent_to_other: "fd' \<noteq> fd \<Longrightarrow> sent_to fd' (snd (send_on fd m p)) = sent_to fd' p"
  by (auto simp: sent_to_def send_on_def ns_send_def os_send_def NetworkStream_def Let_def)

lemma sent_to_all:
  "takes_all p fd \<Longrightarrow> 0 \<le> fd \<Longrightarrow> sent_to fd (snd (send_on fd m p)) = sent_to fd p @ encodeMessage m"
  by (simp add: sent_to_def wire_send_on_all)

lemma sent_to_send_on: "takes_all p fd \<Longrightarrow> 0 \<le> fd \<Longrightarrow>
    sent_to k (snd (send_on fd m p)) = sent_to k p @ (if k = fd then encodeMessage m else [])"
  by (simp add: sent_to_all sent_to_other)

lemma fst_send_on_all: "takes_all p fd \<Longrightarrow> 0 \<le> fd \<Longrightarrow> fst (send_on fd m p)"
  by (simp add: fst_send_on takes_all_def)

lemma receive_frame:
  assumes "fdOpen p fd" and "0 \<le> fd" and "rx p fd = encodeMessage m @ rest" and "sendable m"
  shows "ns_receive (NetworkStream fd) p =
     (Some m, NetworkStream fd, p\<lparr>rx := (rx p)(fd := rest)\<rparr>)"
proof -
  obtain ok msg p' where d: "decodeMessage fd p = (ok, msg, p')" by (metis prod_cases3)
  from decodeMessage_open[OF assms(1) d] have "ok" "msg = m" "p' = p\<lparr>rx := (rx p)(fd := rest)\<rparr>"
    using assms by (simp_all add: decode_encode)
  with d assms(2) show ?thesis by (simp add: ns_receive_def NetworkStream_def)
qed

section \<open>Properties\<close>

text \<open>Sending several messages, and receiving as many.\<close>

definition send_all :: "fd \<Rightarrow> string list \<Rightarrow> 'a process_scheme \<Rightarrow> 'a process_scheme" where
  "send_all fd ms p = fold (\<lambda>m p. snd (send_on fd m p)) ms p"

primrec receive_many ::
  "nat \<Rightarrow> netstream \<Rightarrow> 'a process_scheme \<Rightarrow> string option list \<times> netstream \<times> 'a process_scheme" where
  "receive_many 0 ns p = ([], ns, p)"
| "receive_many (Suc n) ns p =
     (let (m, ns1, p1) = ns_receive ns p; (ms, ns2, p2) = receive_many n ns1 p1
      in (m # ms, ns2, p2))"

lemma sent_to_send_all:
  "takes_all p fd \<Longrightarrow> 0 \<le> fd \<Longrightarrow> sent_to fd (send_all fd ms p) = sent_to fd p @ concat (map encodeMessage ms)"
  by (induction ms arbitrary: p) (simp_all add: send_all_def sent_to_all)

lemma receive_many_frames:
  "fdOpen p fd \<Longrightarrow> 0 \<le> fd \<Longrightarrow> rx p fd = concat (map encodeMessage ms) @ rest \<Longrightarrow> \<forall>m\<in>set ms. sendable m \<Longrightarrow>
   receive_many (length ms) (NetworkStream fd) p = (map Some ms, NetworkStream fd, p\<lparr>rx := (rx p)(fd := rest)\<rparr>)"
proof (induction ms arbitrary: p)
  case Nil
  have "(rx p)(fd := rest) = rx p" using Nil.prems(3) by (intro ext) simp
  then show ?case by simp
next
  case (Cons m ms)
  let ?q = "p\<lparr>rx := (rx p)(fd := concat (map encodeMessage ms) @ rest)\<rparr>"
  have "ns_receive (NetworkStream fd) p = (Some m, NetworkStream fd, ?q)"
    using Cons.prems by (intro receive_frame) simp_all
  moreover have "receive_many (length ms) (NetworkStream fd) ?q =
      (map Some ms, NetworkStream fd, ?q\<lparr>rx := (rx ?q)(fd := rest)\<rparr>)"
    using Cons.prems by (intro Cons.IH) simp_all
  ultimately show ?case by (simp add: fun_upd_def cong: if_cong)
qed



text \<open>C25: \<open>receive\<close> on an open socket gives a message exactly when the bytes start with a
  complete frame whose length is between 1 and 10 MB; in every other case (end of the
  connection, a frame cut short, a length of zero or above the limit) it gives none and
  marks the stream as no longer connected, so a reading loop ends.\<close>

theorem receive_spec:
  assumes "fdOpen p fd" and "0 \<le> fd" and "ns_receive (NetworkStream fd) p = (r, ns, p')"
  shows "(case decode_bytes (rx p fd) of
      Some (m, rest) \<Rightarrow> sendable m \<and> r = Some m \<and> connected ns \<and> rx p fd = encodeMessage m @ rest \<and> rx p' fd = rest
    | None \<Rightarrow> r = None \<and> \<not> connected ns)"
proof -
  obtain ok m q where d: "decodeMessage fd p = (ok, m, q)" by (metis prod_cases3)
  note dm = decodeMessage_open[OF assms(1) d]
  show ?thesis
  proof (cases "decode_bytes (rx p fd)")
    case None
    with dm d assms show ?thesis by (auto simp: ns_receive_def NetworkStream_def)
  next
    case (Some mr)
    obtain m' rest where mr: "mr = (m', rest)" by force
    have db: "decode_bytes (rx p fd) = Some (m', rest)" using Some mr by simp
    from decode_bytes_frame[OF this] dm d assms db decode_bytes_bounds[OF db] show ?thesis
      by (auto simp: ns_receive_def NetworkStream_def)
  qed
qed

theorem receive_spec_witness:
  "fst (ns_receive (NetworkStream 4) (idle_process\<lparr>fdOpen := (\<lambda>_. True), rx := (\<lambda>_. [NL, NL])\<rparr>)) = None"
proof -
  let ?p = "idle_process\<lparr>fdOpen := (\<lambda>_. True), rx := (\<lambda>_. [NL, NL])\<rparr>"
  obtain r ns p' where "ns_receive (NetworkStream 4) ?p = (r, ns, p')" by (metis prod_cases3)
  with receive_spec[of ?p 4 r ns p'] show ?thesis by (simp add: decode_bytes_def)
qed

end
