(* ===== verification/Runtime_Config.thy ===== *)
theory Runtime_Config
  imports Process
begin

text \<open>
  The runtime configuration (\<open>src/Utils/RuntimeConfig.cpp\<close>), a table of string values
  guarded by a table of definitions, and the validity tests of \<open>src/Utils/Utils.cpp\<close> that
  read it.
\<close>

section \<open>The table of definitions\<close>

definition int_def :: "int \<Rightarrow> int \<Rightarrow> int \<Rightarrow> ConfigDef" where
  "int_def d lo hi = \<lparr>cd_type = CT_INT, defaultValue = to_string d, minValue = lo, maxValue = hi\<rparr>"

definition initializeDefinitions :: "(string, ConfigDef) umap" where
  "initializeDefinitions = um_of
     [(''HEARTBEAT_INTERVAL_S'', int_def HEARTBEAT_INTERVAL_S MIN_HEARTBEAT_INTERVAL_S 3600),
      (''HEARTBEAT_CHECK_DELAY_S'', int_def HEARTBEAT_CHECK_DELAY_S 1 60),
      (''HEARTBEAT_TIMEOUT_S'', int_def HEARTBEAT_TIMEOUT_S MIN_HEARTBEAT_TIMEOUT_S 3600),
      (''CLIENT_TIMEOUT_S'', int_def CLIENT_TIMEOUT_S 10 3600),
      (''MAX_QUEUE_SIZE'', int_def MAX_QUEUE_SIZE 10 100000),
      (''THREAD_POOL_SIZE'', int_def (int THREAD_POOL_SIZE) 1 128),
      (''MAX_USERNAME_LENGTH'', int_def MAX_USERNAME_LENGTH MIN_USERNAME_LENGTH MAX_USERNAME_LENGTH_LIMIT),
      (''MAX_SUBJECT_LENGTH'', int_def MAX_SUBJECT_LENGTH MIN_SUBJECT_LENGTH MAX_SUBJECT_LENGTH_LIMIT),
      (''AUTO_STOP_WHEN_NO_CLIENTS'',
        \<lparr>cd_type = CT_BOOL,
         defaultValue = (if AUTO_STOP_WHEN_NO_CLIENTS then ''true'' else ''false''),
         minValue = 0, maxValue = 0\<rparr>)]"

section \<open>Operations\<close>

definition set_defaults :: "(string, ConfigDef) umap \<Rightarrow> (string, string) umap \<Rightarrow> (string, string) umap" where
  "set_defaults defs c = fold (\<lambda>(key, d). um_put key (defaultValue d)) defs c"

definition RuntimeConfig_init :: "'a process_scheme \<Rightarrow> 'a process_scheme" where
  "RuntimeConfig_init p =
     p\<lparr>definitions := initializeDefinitions, config := set_defaults initializeDefinitions []\<rparr>"

definition validateValue ::
  "string \<Rightarrow> string \<Rightarrow> ConfigDef \<Rightarrow> 'a process_scheme \<Rightarrow> bool \<times> 'a process_scheme" where
  "validateValue key value d p =
     (if cd_type d = CT_BOOL then
        (if value \<noteq> ''true'' \<and> value \<noteq> ''false'' \<and> value \<noteq> ''1'' \<and> value \<noteq> ''0''
         then (False, LOG_WARNING (''Invalid value for '' @ key @ '' (expected: true/false/1/0)'') p)
         else (True, p))
      else case stoi value of
        Some numValue \<Rightarrow>
          (if numValue < minValue d \<or> numValue > maxValue d
           then (False, LOG_WARNING (key @ '' must be between '' @ to_string (minValue d)
                          @ '' and '' @ to_string (maxValue d)) p)
           else (True, p))
      | None \<Rightarrow> (False, LOG_WARNING (''Invalid value for '' @ key @ '' (expected: integer)'') p))"

definition config_set :: "string \<Rightarrow> string \<Rightarrow> 'a process_scheme \<Rightarrow> bool \<times> 'a process_scheme" where
  "config_set key value p =
     (case map_of (definitions p) key of
        None \<Rightarrow> (False, LOG_WARNING (''Unknown configuration: '' @ key) p)
      | Some d \<Rightarrow>
          (let (ok, p1) = validateValue key value d p
           in if \<not> ok then (False, p1)
              else (True, LOG_INFO (''Configuration modified: '' @ key @ '' = '' @ value)
                            (p1\<lparr>config := um_put key value (config p1)\<rparr>))))"

definition getInt :: "string \<Rightarrow> 'a process_scheme \<Rightarrow> int option" where
  "getInt key p = (case map_of (config p) key of None \<Rightarrow> None | Some v \<Rightarrow> stoi v)"

definition getBool :: "string \<Rightarrow> 'a process_scheme \<Rightarrow> bool option" where
  "getBool key p =
     (case map_of (config p) key of None \<Rightarrow> None | Some v \<Rightarrow> Some (v = ''true'' \<or> v = ''1''))"

definition listAll :: "'a process_scheme \<Rightarrow> (string, string) umap" where
  "listAll p = config p"

definition config_reset :: "'a process_scheme \<Rightarrow> 'a process_scheme" where
  "config_reset p =
     LOG_INFO ''Configurations reset to default values''
       (p\<lparr>config := set_defaults (definitions p) (config p)\<rparr>)"

section \<open>Validity of names and subjects\<close>

definition length_limit :: "string \<Rightarrow> int \<Rightarrow> 'a process_scheme \<Rightarrow> size_t" where
  "length_limit key dflt p =
     (case getInt key p of Some v \<Rightarrow> word_of_int v | None \<Rightarrow> word_of_int dflt)"

definition username_char :: "char \<Rightarrow> bool" where
  "username_char c \<longleftrightarrow> isalnum c \<or> c = CHR ''_''"

definition isValidUsername :: "string \<Rightarrow> 'a process_scheme \<Rightarrow> bool" where
  "isValidUsername username p \<longleftrightarrow>
     (if username = [] then False
      else let limit = length_limit ''MAX_USERNAME_LENGTH'' MAX_USERNAME_LENGTH p
           in if length username > unat limit then False
              else list_all username_char username)"

definition isValidSubject :: "string \<Rightarrow> 'a process_scheme \<Rightarrow> bool" where
  "isValidSubject subject p \<longleftrightarrow>
     (if subject = [] then False
      else let limit = length_limit ''MAX_SUBJECT_LENGTH'' MAX_SUBJECT_LENGTH p
           in length subject \<le> unat limit)"

section \<open>The table stays well-formed\<close>

definition accepts :: "ConfigDef \<Rightarrow> string \<Rightarrow> bool" where
  "accepts d v \<longleftrightarrow>
     (if cd_type d = CT_BOOL then v \<in> {''true'', ''false'', ''1'', ''0''}
      else case stoi v of None \<Rightarrow> False | Some n \<Rightarrow> minValue d \<le> n \<and> n \<le> maxValue d)"

definition entry_ok :: "string \<Rightarrow> string option \<Rightarrow> bool" where
  "entry_ok key v =
     (case map_of initializeDefinitions key of None \<Rightarrow> v = None
      | Some d \<Rightarrow> (case v of None \<Rightarrow> False | Some w \<Rightarrow> accepts d w))"

definition config_wf :: "'a process_scheme \<Rightarrow> bool" where
  "config_wf p \<longleftrightarrow> definitions p = initializeDefinitions \<and> um_valid (config p) \<and>
     (\<forall>key. entry_ok key (map_of (config p) key))"

lemma fst_validateValue: "fst (validateValue key v d p) = accepts d v"
  by (auto simp: validateValue_def accepts_def split: option.splits)

lemma validateValue_frame [simp]:
  "config (snd (validateValue k v d p)) = config p"
  "definitions (snd (validateValue k v d p)) = definitions p"
  by (auto simp: validateValue_def split: option.splits)

lemma fst_config_set:
  "fst (config_set key v p) = (case map_of (definitions p) key of None \<Rightarrow> False | Some d \<Rightarrow> accepts d v)"
  by (simp add: config_set_def fst_validateValue[symmetric, of _ _ key p] Let_def case_prod_beta
      split: option.split)

lemma config_config_set:
  "config (snd (config_set key v p)) =
     (if fst (config_set key v p) then um_put key v (config p) else config p)"
  by (simp add: config_set_def Let_def case_prod_beta split: option.split)

lemma definitions_config_set [simp]: "definitions (snd (config_set key v p)) = definitions p"
  by (simp add: config_set_def Let_def case_prod_beta split: option.split)

lemma set_defaults_valid: "um_valid c \<Longrightarrow> um_valid (set_defaults defs c)"
  unfolding set_defaults_def by (rule fold_put_valid)

lemma set_defaults_find:
  "um_valid defs \<Longrightarrow> map_of (set_defaults defs c) k =
    (case map_of defs k of Some d \<Rightarrow> Some (defaultValue d) | None \<Rightarrow> map_of c k)"
  unfolding set_defaults_def by (rule fold_put_find)

lemma definitions_valid: "um_valid initializeDefinitions"
  by (simp add: initializeDefinitions_def um_valid_of)

lemma int_def_accepts:
  "lo \<le> d \<Longrightarrow> d \<le> hi \<Longrightarrow> INT_MIN \<le> d \<Longrightarrow> d \<le> INT_MAX \<Longrightarrow> accepts (int_def d lo hi) (to_string d)"
  by (simp add: accepts_def int_def_def stoi_to_string)

lemma default_accepted:
  "map_of initializeDefinitions k = Some d \<Longrightarrow> accepts d (defaultValue d)"
  unfolding initializeDefinitions_def um_of_def
  by (auto simp: int_def_accepts accepts_def const_defs INT_MIN_def INT_MAX_def int_def_def
      stoi_to_string split: if_splits)

lemma entry_ok_default:
  "entry_ok key v \<or> v = None \<Longrightarrow> entry_ok key
     (case map_of initializeDefinitions key of Some d \<Rightarrow> Some (defaultValue d) | None \<Rightarrow> v)"
  by (auto simp: entry_ok_def default_accepted split: option.split)

lemma entry_ok_Some: "entry_ok key (Some v) \<longleftrightarrow>
    (\<exists>d. map_of initializeDefinitions key = Some d \<and> accepts d v)"
  by (simp add: entry_ok_def split: option.split)

lemma config_wf_init: "config_wf (RuntimeConfig_init p)"
  by (simp add: config_wf_def RuntimeConfig_init_def set_defaults_valid set_defaults_find
      definitions_valid entry_ok_default)

lemma config_wf_set: "config_wf p \<Longrightarrow> config_wf (snd (config_set key v p))"
  by (cases "map_of initializeDefinitions key")
     (simp_all add: config_wf_def config_config_set fst_config_set um_valid_put entry_ok_Some)

lemma config_wf_reset: "config_wf p \<Longrightarrow> config_wf (config_reset p)"
  by (simp add: config_wf_def config_reset_def set_defaults_valid set_defaults_find
      definitions_valid entry_ok_default)

lemma config_wf_cong:
  "config p = config q \<Longrightarrow> definitions p = definitions q \<Longrightarrow> config_wf p = config_wf q"
  by (simp add: config_wf_def)

lemma config_wf_getInt:
  assumes "config_wf p" and "map_of initializeDefinitions key = Some d" and "cd_type d = CT_INT"
  shows "\<exists>n. getInt key p = Some n \<and> minValue d \<le> n \<and> n \<le> maxValue d"
proof -
  have "entry_ok key (map_of (config p) key)" using assms(1) by (simp add: config_wf_def)
  with assms(2,3) show ?thesis
    by (auto simp: entry_ok_def accepts_def getInt_def split: option.splits)
qed

text \<open>Hence the limit on user names is between 3 and 100, that on subjects between 10 and 500.\<close>

lemma word_of_int_small: "0 \<le> n \<Longrightarrow> n < 2 ^ 64 \<Longrightarrow> unat (word_of_int n :: 64 word) = nat n"
  by (simp add: unat_eq_nat_uint uint_word_of_int)

lemma username_limit:
  assumes "config_wf p"
  shows "3 \<le> unat (length_limit ''MAX_USERNAME_LENGTH'' MAX_USERNAME_LENGTH p)"
    "unat (length_limit ''MAX_USERNAME_LENGTH'' MAX_USERNAME_LENGTH p) \<le> 100"
proof -
  have "map_of initializeDefinitions ''MAX_USERNAME_LENGTH'' = Some (int_def 32 3 100)"
    by (simp add: initializeDefinitions_def um_of_def const_defs)
  from config_wf_getInt[OF assms this]
  obtain n where "getInt ''MAX_USERNAME_LENGTH'' p = Some n" "3 \<le> n" "n \<le> 100"
    by (auto simp: int_def_def)
  then show "3 \<le> unat (length_limit ''MAX_USERNAME_LENGTH'' MAX_USERNAME_LENGTH p)"
    "unat (length_limit ''MAX_USERNAME_LENGTH'' MAX_USERNAME_LENGTH p) \<le> 100"
    by (simp_all add: length_limit_def word_of_int_small del: of_int_numeral)
qed

lemma subject_limit:
  assumes "config_wf p"
  shows "unat (length_limit ''MAX_SUBJECT_LENGTH'' MAX_SUBJECT_LENGTH p) \<le> 500"
proof -
  have "map_of initializeDefinitions ''MAX_SUBJECT_LENGTH'' = Some (int_def 100 10 500)"
    by (simp add: initializeDefinitions_def um_of_def const_defs)
  from config_wf_getInt[OF assms this]
  obtain n where "getInt ''MAX_SUBJECT_LENGTH'' p = Some n" "10 \<le> n" "n \<le> 500"
    by (auto simp: int_def_def)
  then show ?thesis by (simp add: length_limit_def word_of_int_small)
qed

lemma isValidUsername_iff: "isValidUsername u p \<longleftrightarrow> u \<noteq> [] \<and>
    length u \<le> unat (length_limit ''MAX_USERNAME_LENGTH'' MAX_USERNAME_LENGTH p) \<and>
    (\<forall>c\<in>set u. username_char c)"
  by (auto simp: isValidUsername_def Let_def list_all_iff)

lemma isValidSubject_iff: "isValidSubject s p \<longleftrightarrow> s \<noteq> [] \<and>
    length s \<le> unat (length_limit ''MAX_SUBJECT_LENGTH'' MAX_SUBJECT_LENGTH p)"
  by (auto simp: isValidSubject_def Let_def)

lemma validity_cong [frame]:
  "config p = config q \<Longrightarrow> isValidUsername u p = isValidUsername u q"
  "config p = config q \<Longrightarrow> isValidSubject u p = isValidSubject u q"
  by (simp_all add: isValidUsername_iff isValidSubject_iff length_limit_def getInt_def)

lemma username_char_safe:
  "username_char c \<Longrightarrow> c \<noteq> CHR '';'' \<and> c \<noteq> CHR '','' \<and> c \<noteq> NL \<and> c \<noteq> SQ \<and> c \<noteq> CHR '' '' \<and> \<not> iscntrl c"
  by (auto simp: username_char_def isalnum_def isalpha_def isdigit_def iscntrl_def)

text \<open>What holds of every accepted name whatever the configuration.\<close>

definition name_ok :: "string \<Rightarrow> bool" where
  "name_ok u \<longleftrightarrow> u \<noteq> [] \<and> length u \<le> 100 \<and> (\<forall>c\<in>set u. username_char c)"

lemma isValidUsername_ok: "config_wf p \<Longrightarrow> isValidUsername u p \<Longrightarrow> name_ok u"
  using username_limit(2)[of p] by (auto simp: isValidUsername_iff name_ok_def)

lemma name_ok_chars: "name_ok u \<Longrightarrow> CHR '';'' \<notin> set u \<and> CHR '','' \<notin> set u \<and> NL \<notin> set u"
  using username_char_safe by (fastforce simp: name_ok_def)

lemma name_ok_sanitize: "name_ok u \<Longrightarrow> sanitize u = u"
  using username_char_safe by (intro sanitize_id) (auto simp: name_ok_def)

section \<open>Properties\<close>

text \<open>C28: \<open>set\<close> on a well-formed table accepts exactly the known keys with a value their
  definition allows (an integer that \<open>stoi\<close> reads inside the range, or one of the four
  words for a boolean), changes that key only, leaves the table as it was when it refuses,
  and keeps it well-formed, so that every integer setting always reads as a number in range.\<close>

theorem config_set_spec:
  assumes "config_wf p" and "config_set key v p = (ok, p')"
  shows "(ok \<longleftrightarrow> (\<exists>d. map_of initializeDefinitions key = Some d \<and> accepts d v)) \<and>
    map_of (config p') = (if ok then (map_of (config p))(key \<mapsto> v) else map_of (config p)) \<and>
    config_wf p' \<and>
    (\<forall>k d. map_of initializeDefinitions k = Some d \<longrightarrow> cd_type d = CT_INT \<longrightarrow>
       (\<exists>n. getInt k p' = Some n \<and> minValue d \<le> n \<and> n \<le> maxValue d))"
proof -
  have ok: "ok = fst (config_set key v p)" "p' = snd (config_set key v p)" using assms(2) by simp_all
  have "definitions p = initializeDefinitions" using assms(1) by (simp add: config_wf_def)
  then have "ok \<longleftrightarrow> (\<exists>d. map_of initializeDefinitions key = Some d \<and> accepts d v)"
    unfolding ok(1) fst_config_set by (auto split: option.split)
  moreover have "map_of (config p') = (if ok then (map_of (config p))(key \<mapsto> v) else map_of (config p))"
    unfolding ok config_config_set by simp
  moreover have "config_wf p'" unfolding ok(2) by (rule config_wf_set[OF assms(1)])
  ultimately show ?thesis using config_wf_getInt[of p'] by blast
qed

text \<open>The text \<open>50abc\<close> is accepted: \<open>stoi\<close> stops at the first character that is no digit.\<close>

theorem config_set_spec_witness:
  "fst (config_set ''MAX_QUEUE_SIZE'' ''50abc'' (RuntimeConfig_init idle_process)) \<and>
   \<not> fst (config_set ''MAX_QUEUE_SIZE'' ''5'' (RuntimeConfig_init idle_process)) \<and>
   \<not> fst (config_set ''heartbeat.interval'' ''60'' (RuntimeConfig_init idle_process))"
proof -
  have known: "map_of initializeDefinitions ''MAX_QUEUE_SIZE'' = Some (int_def 1000 10 100000)"
    "map_of initializeDefinitions ''heartbeat.interval'' = None"
    by (simp_all add: initializeDefinitions_def um_of_def const_defs)
  have "stoi ''50abc'' = Some 50" "stoi ''5'' = Some 5" by code_simp+
  then have "accepts (int_def 1000 10 100000) ''50abc''" "\<not> accepts (int_def 1000 10 100000) ''5''"
    by (simp_all add: accepts_def int_def_def)
  then show ?thesis
    unfolding config_set_spec[OF config_wf_init surjective_pairing, THEN conjunct1] by (simp add: known)
qed

text \<open>\<open>reset\<close> puts every setting of a well-formed table back to its default, whatever was
  set before, and keeps the table well-formed.\<close>

theorem config_reset_spec:
  assumes "config_wf p"
  shows "map_of (config (config_reset p)) =
      map_option defaultValue \<circ> map_of initializeDefinitions \<and> config_wf (config_reset p)"
proof -
  have "map_of (config p) k = None" if "map_of initializeDefinitions k = None" for k
    using assms that by (auto simp: config_wf_def entry_ok_def dest!: spec[of _ k])
  with assms have "map_of (config (config_reset p)) k = map_option defaultValue (map_of initializeDefinitions k)" for k
    by (simp add: config_reset_def config_wf_def set_defaults_find definitions_valid split: option.split)
  with config_wf_reset[OF assms] show ?thesis by (auto simp: fun_eq_iff)
qed

theorem config_reset_spec_witness:
  "map_of (config (config_reset (snd (config_set ''MAX_QUEUE_SIZE'' ''77'' (RuntimeConfig_init idle_process)))))
     ''MAX_QUEUE_SIZE'' = Some ''1000''"
proof -
  have "map_of initializeDefinitions ''MAX_QUEUE_SIZE'' = Some (int_def 1000 10 100000)"
    by (simp add: initializeDefinitions_def um_of_def const_defs)
  moreover have "to_string 1000 = ''1000''" by code_simp
  ultimately show ?thesis
    by (simp add: int_def_def config_reset_spec[OF config_wf_set[OF config_wf_init], THEN conjunct1])
qed

text \<open>\<open>isValidUsername\<close>: with the default configuration the accepted names are those of 1 to
  32 letters, digits and underscores; under any well-formed configuration an accepted name
  has at most 100 of these characters, so none of the separators of the protocol (semicolon,
  comma, newline), and \<open>sanitize\<close> leaves it as it is.\<close>

theorem username_spec:
  "(isValidUsername u (RuntimeConfig_init p) \<longleftrightarrow> u \<noteq> [] \<and> length u \<le> 32 \<and> (\<forall>c\<in>set u. isalnum c \<or> c = CHR ''_'')) \<and>
   (config_wf q \<longrightarrow> isValidUsername u q \<longrightarrow> u \<noteq> [] \<and> length u \<le> 100 \<and> sanitize u = u \<and>
      CHR '';'' \<notin> set u \<and> CHR '','' \<notin> set u \<and> NL \<notin> set u)"
proof (intro conjI impI)
  have "map_of (config (RuntimeConfig_init p)) ''MAX_USERNAME_LENGTH'' = Some (to_string 32)"
    by (simp add: RuntimeConfig_init_def set_defaults_find definitions_valid)
       (simp add: initializeDefinitions_def um_of_def int_def_def const_defs)
  then have "length_limit ''MAX_USERNAME_LENGTH'' MAX_USERNAME_LENGTH (RuntimeConfig_init p) = 32"
    by (simp add: length_limit_def getInt_def stoi_to_string INT_MIN_def INT_MAX_def)
  then show "isValidUsername u (RuntimeConfig_init p) \<longleftrightarrow>
      u \<noteq> [] \<and> length u \<le> 32 \<and> (\<forall>c\<in>set u. isalnum c \<or> c = CHR ''_'')"
    by (simp add: isValidUsername_iff username_char_def)
next
  assume "config_wf q" "isValidUsername u q"
  from isValidUsername_ok[OF this] have "name_ok u" .
  with name_ok_chars[OF this] name_ok_sanitize[OF this]
  show "u \<noteq> []" "length u \<le> 100" "sanitize u = u" "CHR '';'' \<notin> set u" "CHR '','' \<notin> set u" "NL \<notin> set u"
    by (simp_all add: name_ok_def)
qed

theorem username_spec_witness:
  "isValidUsername ''al_1ce'' (RuntimeConfig_init idle_process) \<and>
   CHR '';'' \<notin> set ''al_1ce'' \<and> \<not> isValidUsername ''al ice'' (RuntimeConfig_init idle_process)"
  using username_spec[of "''al_1ce''" idle_process "RuntimeConfig_init idle_process"]
    username_spec[of "''al ice''" idle_process "RuntimeConfig_init idle_process"]
    config_wf_init[of idle_process]
  by (simp add: isalnum_def isalpha_def isdigit_def)

end
