(* ===== verification/Server_State.thy ===== *)
theory Server_State
  imports Network_Stream Runtime_Config
begin

text \<open>
  The state of the server process: the records of \<open>include/Server/*.hpp\<close>, the client
  registry and the ban list of \<open>src/Server/Server.cpp\<close>. The record \<open>server\<close> extends
  \<open>process\<close>, so the operations on sockets, files and the log apply to it as they are.
\<close>

section \<open>Data\<close>

datatype QueueFullPolicy = REJECT | DROP_OLDEST | DROP_NEWEST

datatype SERVER_STATUS = OFF | STARTING | RUNNING | STOPPING

record DispatcherConfig =
  delayBetweenMessages :: int
  startedTimestamp :: int
  maxStoredMessages :: int
  queuePolicy :: QueueFullPolicy

record Message =
  msg_from :: string
  msg_to :: string
  subject :: string
  body :: string
  timestamp :: int

record Dispatcher =
  messages :: "Message list"
  dconfig :: DispatcherConfig
  running :: bool

record ClientInfo =
  socket :: fd
  lastPong :: int
  waitingForPong :: bool

record ServerConfig =
  listenSocket :: fd
  sin_port :: "16 word"
  port :: int
  max_connections :: int

datatype ClientCommand =
  CmdConnect | CmdDisconnect | CmdSend | CmdPing | CmdPong | CmdListUsers | CmdGetLog

text \<open>
  The last five fields are the environment of \<open>Server::start\<close> and \<open>Server::acceptClients\<close>:
  the descriptor \<open>socket\<close> returns, whether \<open>setsockopt\<close>, \<open>bind\<close> and \<open>listen\<close> succeed, and
  the results of the coming calls of \<open>accept\<close>. \<open>exited\<close> is the status given to
  \<open>std::exit\<close>, if it was called.
\<close>

record server = process +
  clients :: "(string, ClientInfo) umap"
  bannedUsers :: "string list"
  commands :: "(string, ClientCommand) umap"
  dispatcher :: "Dispatcher option"
  threadPool :: "fd list option"
  adminRunning :: bool
  totalMessagesSent :: size_t
  totalMessagesReceived :: size_t
  startTime :: int
  status :: SERVER_STATUS
  sconfig :: ServerConfig
  exited :: "int option"
  newSocket :: fd
  setsockoptOk :: bool
  bindOk :: bool
  listenOk :: bool
  incoming :: "fd list"

text \<open>
  The constructor, with the field initialisers of the class. The descriptor of the system
  calls is -1 until the environment provides one.
\<close>

definition Server_new :: "process \<Rightarrow> server" where
  "Server_new p = logger_log INFO ''Server created with default configuration''
     (process.extend p
       (server.fields [] [] [] None None True 0 0 0 OFF
          \<lparr>listenSocket = 0, sin_port = 0, port = 8080, max_connections = 0\<rparr>
          None (-1) True True True []))"

text \<open>The other one, with a configuration of the caller's; the program does not use it.\<close>

definition Server_new_with :: "ServerConfig \<Rightarrow> process \<Rightarrow> server" where
  "Server_new_with configuration p = logger_log INFO ''Server created with custom configuration''
     (process.extend p
       (server.fields [] [] [] None None True 0 0 0 OFF configuration None (-1) True True True []))"

instantiation SERVER_STATUS :: linorder
begin

definition status_code :: "SERVER_STATUS \<Rightarrow> nat" where
  "status_code st = (case st of OFF \<Rightarrow> 0 | STARTING \<Rightarrow> 1 | RUNNING \<Rightarrow> 2 | STOPPING \<Rightarrow> 3)"

definition less_eq_SERVER_STATUS :: "SERVER_STATUS \<Rightarrow> SERVER_STATUS \<Rightarrow> bool" where
  "less_eq_SERVER_STATUS a b \<longleftrightarrow> status_code a \<le> status_code b"

definition less_SERVER_STATUS :: "SERVER_STATUS \<Rightarrow> SERVER_STATUS \<Rightarrow> bool" where
  "less_SERVER_STATUS a b \<longleftrightarrow> status_code a < status_code b"

instance
  by standard
     (auto simp: less_eq_SERVER_STATUS_def less_SERVER_STATUS_def status_code_def
       split: SERVER_STATUS.splits)

end

section \<open>Frame facts\<close>

text \<open>An operation that keeps the extension part of the record keeps every field in it.\<close>

lemma server_frame:
  fixes s t :: server
  assumes "process.more s = process.more t"
  shows "clients s = clients t" "bannedUsers s = bannedUsers t" "commands s = commands t"
    "dispatcher s = dispatcher t" "threadPool s = threadPool t" "adminRunning s = adminRunning t"
    "totalMessagesSent s = totalMessagesSent t" "totalMessagesReceived s = totalMessagesReceived t"
    "startTime s = startTime t" "status s = status t" "sconfig s = sconfig t"
    "exited s = exited t" "newSocket s = newSocket t" "incoming s = incoming t"
    "setsockoptOk s = setsockoptOk t" "bindOk s = bindOk t" "listenOk s = listenOk t"
  using assms by (cases s; cases t; simp)+

lemmas server_print [simp, frame] = server_frame[OF print_frame(14)]
lemmas server_append_file [simp, frame] = server_frame[OF append_file_frame(14)]
lemmas server_log [simp, frame] = server_frame[OF logger_log_frame(13)]
lemmas server_close [simp, frame] = server_frame[OF os_close_frame(13)]
lemmas server_send_on [simp, frame] = server_frame[OF send_on_frame(13)]

section \<open>The client registry\<close>

definition getUsernameBySocket :: "fd \<Rightarrow> server \<Rightarrow> string" where
  "getUsernameBySocket sock s =
     (case find (\<lambda>(username, info). socket info = sock) (clients s) of
        Some (username, info) \<Rightarrow> username | None \<Rightarrow> [])"

definition getUserSocket :: "string \<Rightarrow> server \<Rightarrow> fd" where
  "getUserSocket username s =
     (case map_of (clients s) username of Some info \<Rightarrow> socket info | None \<Rightarrow> -1)"

definition isUsernameTaken :: "string \<Rightarrow> server \<Rightarrow> bool" where
  "isUsernameTaken username s \<longleftrightarrow> map_of (clients s) username \<noteq> None"

definition registerClient :: "string \<Rightarrow> fd \<Rightarrow> server \<Rightarrow> server" where
  "registerClient username sock s =
     s\<lparr>clients := um_put username
         \<lparr>socket = sock, lastPong = steadyClock s, waitingForPong = False\<rparr> (clients s)\<rparr>"

definition unregisterClient :: "string \<Rightarrow> server \<Rightarrow> server" where
  "unregisterClient username s = s\<lparr>clients := um_erase username (clients s)\<rparr>"

definition updateClientPong :: "string \<Rightarrow> server \<Rightarrow> server" where
  "updateClientPong username s =
     (case map_of (clients s) username of
        Some info \<Rightarrow> s\<lparr>clients := um_put username
            (info\<lparr>lastPong := steadyClock s, waitingForPong := False\<rparr>) (clients s)\<rparr>
      | None \<Rightarrow> s)"

definition getClientCount :: "server \<Rightarrow> int" where
  "getClientCount s = int (length (clients s))"

definition getAllClients :: "server \<Rightarrow> (string, fd) umap" where
  "getAllClients s = fold (\<lambda>(username, info). um_put username (socket info)) (clients s) []"

lemma getUsernameBySocket_Some:
  assumes "um_valid (clients s)" and "getUsernameBySocket sock s = u" and "u \<noteq> []"
  shows "\<exists>info. map_of (clients s) u = Some info \<and> socket info = sock"
proof -
  from assms(2,3) obtain info where "find (\<lambda>(u, i). socket i = sock) (clients s) = Some (u, info)"
    by (auto simp: getUsernameBySocket_def split: option.splits prod.splits)
  from find_SomeD[OF this] have "(u, info) \<in> set (clients s)" "socket info = sock"
    by auto
  with assms(1) show ?thesis by (auto simp: um_valid_def)
qed

lemma getUsernameBySocket_Nil:
  assumes "\<forall>(u, i)\<in>set (clients s). u \<noteq> []"
  shows "getUsernameBySocket sock s = [] \<longleftrightarrow> (\<forall>(u, i)\<in>set (clients s). socket i \<noteq> sock)"
proof (cases "find (\<lambda>(u, i). socket i = sock) (clients s)")
  case None
  then have "\<forall>(u, i)\<in>set (clients s). socket i \<noteq> sock" by (auto simp: find_None_iff)
  with None show ?thesis by (simp add: getUsernameBySocket_def)
next
  case (Some e)
  from find_SomeD[OF this] have "e \<in> set (clients s)" "socket (snd e) = sock"
    by auto
  with Some assms show ?thesis by (cases e) (auto simp: getUsernameBySocket_def)
qed

lemma getUserSocket_pos:
  "0 < getUserSocket u s \<Longrightarrow> \<exists>info. map_of (clients s) u = Some info \<and> socket info = getUserSocket u s"
  by (auto simp: getUserSocket_def split: option.splits)

lemma getAllClients_find:
  "um_valid (clients s) \<Longrightarrow> map_of (getAllClients s) u = map_option socket (map_of (clients s) u)"
  by (simp add: getAllClients_def fold_put_find split: option.split)

lemma getAllClients_valid: "um_valid (getAllClients s)"
  unfolding getAllClients_def by (rule fold_put_valid) simp

lemma fst_getAllClients: "fst ` set (getAllClients s) = fst ` set (clients s)"
  by (simp add: getAllClients_def fold_put_keys)

section \<open>The ban list\<close>

definition saveBanlist :: "server \<Rightarrow> server" where
  "saveBanlist s =
     (if \<not> canOpen s DEFAULT_BANLIST then LOG_ERROR ''Cannot open banlist file for writing'' s
      else LOG_DEBUG (''Banlist saved: '' @ to_string (int (length (bannedUsers s))) @ '' user(s)'')
             (s\<lparr>files := (files s)(DEFAULT_BANLIST \<mapsto> concat (map (\<lambda>u. u @ [NL]) (bannedUsers s)))\<rparr>))"

definition banlistAdd :: "string \<Rightarrow> server \<Rightarrow> server" where
  "banlistAdd username s =
     saveBanlist (s\<lparr>bannedUsers := us_insert username (bannedUsers s)\<rparr>)"

definition banlistRemove :: "string \<Rightarrow> server \<Rightarrow> bool \<times> server" where
  "banlistRemove username s =
     (if username \<notin> set (bannedUsers s) then (False, s)
      else (True, saveBanlist (s\<lparr>bannedUsers := us_erase username (bannedUsers s)\<rparr>)))"

definition isBanned :: "string \<Rightarrow> server \<Rightarrow> bool" where
  "isBanned username s \<longleftrightarrow> username \<in> set (bannedUsers s)"

definition loadBanlist :: "server \<Rightarrow> server" where
  "loadBanlist s =
     (case files s DEFAULT_BANLIST of
        None \<Rightarrow> LOG_INFO ''No banlist file found, creating a new list'' s
      | Some content \<Rightarrow>
          (let s1 = s\<lparr>bannedUsers :=
                 fold (\<lambda>u b. if u \<noteq> [] then us_insert u b else b) (getlines content) (bannedUsers s)\<rparr>
           in LOG_INFO (''Banlist loaded: '' @ to_string (int (length (bannedUsers s1)))
                          @ '' banned user(s)'') s1))"

lemma set_load_fold:
  "set (fold (\<lambda>u b. if u \<noteq> [] then us_insert u b else b) ls b) = set b \<union> {u \<in> set ls. u \<noteq> []}"
  by (induction ls arbitrary: b) auto

lemma distinct_load_fold:
  "distinct b \<Longrightarrow> distinct (fold (\<lambda>u b. if u \<noteq> [] then us_insert u b else b) ls b)"
  by (induction ls arbitrary: b) auto

lemma saveBanlist_frame [simp, frame]:
  "clients (saveBanlist s) = clients s" "bannedUsers (saveBanlist s) = bannedUsers s"
  "dispatcher (saveBanlist s) = dispatcher s" "status (saveBanlist s) = status s"
  "config (saveBanlist s) = config s" "definitions (saveBanlist s) = definitions s"
  "logFile (saveBanlist s) = logFile s" "fdOpen (saveBanlist s) = fdOpen s"
  "wire (saveBanlist s) = wire s" "rx (saveBanlist s) = rx s" "cin (saveBanlist s) = cin s"
  "exited (saveBanlist s) = exited s" "canOpen (saveBanlist s) = canOpen s"
  "adminRunning (saveBanlist s) = adminRunning s" "steadyClock (saveBanlist s) = steadyClock s"
  by (simp_all add: saveBanlist_def)

text \<open>The file after a save, when it can be written and is not the log file.\<close>

lemma files_saveBanlist:
  assumes "canOpen s DEFAULT_BANLIST" and "logFile s \<noteq> Some DEFAULT_BANLIST"
  shows "files (saveBanlist s) DEFAULT_BANLIST = Some (concat (map (\<lambda>u. u @ [NL]) (bannedUsers s)))"
  using assms by (simp add: saveBanlist_def logger_log_files_other)

definition bannable :: "string \<Rightarrow> bool" where
  "bannable u \<longleftrightarrow> u \<noteq> [] \<and> NL \<notin> set u"

lemma set_loadBanlist:
  assumes "files t DEFAULT_BANLIST = Some (concat (map (\<lambda>u. u @ [NL]) us))"
    and "\<forall>u\<in>set us. bannable u"
  shows "set (bannedUsers (loadBanlist t)) = set (bannedUsers t) \<union> set us"
proof -
  have "getlines (concat (map (\<lambda>u. u @ [NL]) us)) = us"
    using assms(2) by (intro getlines_concat) (auto simp: bannable_def)
  with assms show ?thesis
    by (auto simp: loadBanlist_def Let_def set_load_fold bannable_def)
qed

section \<open>Properties\<close>

text \<open>C26: The ban list survives a restart: after \<open>banlistAdd\<close> (or \<open>banlistRemove\<close>), a server that
  starts with an empty list and reads the file that was written gets the same set of banned
  users, with (or without) the new one. Names are non-empty and hold no newline, and the
  file can be written and is not the log file.\<close>

theorem banlist_persists:
  assumes "canOpen s DEFAULT_BANLIST" and "logFile s \<noteq> Some DEFAULT_BANLIST"
    and "\<forall>x\<in>set (bannedUsers s). bannable x" and "bannable u" and "bannedUsers t = []"
  shows "(files t = files (banlistAdd u s) \<longrightarrow>
       set (bannedUsers (loadBanlist t)) = insert u (set (bannedUsers s))) \<and>
    (u \<in> set (bannedUsers s) \<longrightarrow> files t = files (snd (banlistRemove u s)) \<longrightarrow>
       set (bannedUsers (loadBanlist t)) = set (bannedUsers s) - {u})"
proof (intro conjI impI)
  assume "files t = files (banlistAdd u s)"
  with assms show "set (bannedUsers (loadBanlist t)) = insert u (set (bannedUsers s))"
    by (subst set_loadBanlist[where us = "us_insert u (bannedUsers s)"])
       (auto simp: banlistAdd_def files_saveBanlist)
next
  assume "u \<in> set (bannedUsers s)" "files t = files (snd (banlistRemove u s))"
  with assms show "set (bannedUsers (loadBanlist t)) = set (bannedUsers s) - {u}"
    by (subst set_loadBanlist[where us = "us_erase u (bannedUsers s)"])
       (auto simp: banlistRemove_def files_saveBanlist)
qed

theorem banlist_persists_witness:
  "set (bannedUsers (loadBanlist ((banlistAdd ''eve'' (Server_new idle_process))\<lparr>bannedUsers := []\<rparr>))) = {''eve''}"
proof -
  have "logFile (Server_new idle_process) = None" "canOpen (Server_new idle_process) DEFAULT_BANLIST"
    "bannedUsers (Server_new idle_process) = []"
    by (simp_all add: Server_new_def idle_process_def process.defs server.defs)
  with banlist_persists[of "Server_new idle_process" "''eve''"
      "(banlistAdd ''eve'' (Server_new idle_process))\<lparr>bannedUsers := []\<rparr>"]
  show ?thesis by (simp add: bannable_def)
qed

end
