(* ===== verification/Dispatcher.thy ===== *)
theory Dispatcher
  imports Server_State
begin

text \<open>
  The message queue and its delivery loop: \<open>src/Server/Dispatcher.cpp\<close>. The locale
  \<open>bounded_queue\<close> is the contract \<open>queueMessage\<close> keeps under the policy REJECT, the one
  the program runs with (no code ever assigns \<open>queuePolicy\<close>).
\<close>

section \<open>A bounded first-in first-out queue\<close>

locale bounded_queue =
  fixes offer :: "'m \<Rightarrow> 'q \<Rightarrow> bool \<times> 'q"
    and contents :: "'q \<Rightarrow> 'm list"
    and capacity :: "'q \<Rightarrow> nat"
    and inv :: "'q \<Rightarrow> bool"
  assumes offer_room: "inv q \<Longrightarrow> length (contents q) < capacity q \<Longrightarrow>
      fst (offer m q) \<and> contents (snd (offer m q)) = contents q @ [m]"
    and offer_full: "inv q \<Longrightarrow> capacity q \<le> length (contents q) \<Longrightarrow>
      \<not> fst (offer m q) \<and> contents (snd (offer m q)) = contents q"
    and offer_inv: "inv q \<Longrightarrow> inv (snd (offer m q)) \<and> capacity (snd (offer m q)) = capacity q"
begin

lemma offer_contents: "inv q \<Longrightarrow> contents (snd (offer m q)) =
    contents q @ (if length (contents q) < capacity q then [m] else [])"
  using offer_room offer_full by (cases "length (contents q) < capacity q") auto

lemma offer_bound:
  "inv q \<Longrightarrow> length (contents q) \<le> capacity q \<Longrightarrow> length (contents (snd (offer m q))) \<le> capacity q"
  by (auto simp: offer_contents)

text \<open>Offering several messages in a row appends as many as fit, in order.\<close>

lemma offer_many: "inv q \<Longrightarrow> length (contents q) \<le> capacity q \<Longrightarrow>
    contents (fold (\<lambda>m q. snd (offer m q)) ms q) =
      contents q @ take (capacity q - length (contents q)) ms"
proof (induction ms arbitrary: q)
  case (Cons m ms)
  have inv: "inv (snd (offer m q))" "capacity (snd (offer m q)) = capacity q"
    using offer_inv[OF Cons.prems(1)] by auto
  have len: "length (contents (snd (offer m q))) \<le> capacity (snd (offer m q))"
    using offer_bound[OF Cons.prems] inv by simp
  show ?case
    using Cons.IH[OF inv(1) len] inv(2) Cons.prems
    by (auto simp: offer_contents take_Cons')
qed simp

lemma offer_many_inv: "inv q \<Longrightarrow> inv (fold (\<lambda>m q. snd (offer m q)) ms q) \<and>
    capacity (fold (\<lambda>m q. snd (offer m q)) ms q) = capacity q"
proof (induction ms arbitrary: q)
  case (Cons m ms)
  with offer_inv[of q m] Cons.IH[of "snd (offer m q)"] show ?case by simp
qed simp

end

section \<open>queueMessage\<close>

definition Dispatcher_new :: "'a process_scheme \<Rightarrow> Dispatcher \<times> 'a process_scheme" where
  "Dispatcher_new p =
     (\<lparr>messages = [],
       dconfig = \<lparr>delayBetweenMessages = 10, startedTimestamp = tdiv (sysClock p) 1000000,
                  maxStoredMessages = 10000, queuePolicy = REJECT\<rparr>,
       running = True\<rparr>,
      LOG_INFO ''Dispatcher created'' p)"

definition queue_capacity :: "Dispatcher \<Rightarrow> nat" where
  "queue_capacity d = unat (word_of_int (maxStoredMessages (dconfig d)) :: size_t)"

definition queueMessage ::
  "Message \<Rightarrow> Dispatcher \<times> 'a process_scheme \<Rightarrow> bool \<times> Dispatcher \<times> 'a process_scheme" where
  "queueMessage msg = (\<lambda>(d, p).
     (let push = (\<lambda>d p. (True, d\<lparr>messages := messages d @ [msg]\<rparr>, p))
      in if length (messages d) \<ge> queue_capacity d then
           (case queuePolicy (dconfig d) of
              REJECT \<Rightarrow> (False, d, LOG_WARNING ''Queue full - message rejected (policy: REJECT)'' p)
            | DROP_OLDEST \<Rightarrow> push (d\<lparr>messages := tl (messages d)\<rparr>)
                (LOG_WARNING ''Queue full - oldest message dropped (policy: DROP_OLDEST)'' p)
            | DROP_NEWEST \<Rightarrow> (False, d, LOG_WARNING ''Queue full - new message ignored (policy: DROP_NEWEST)'' p))
         else push d p))"

definition dispatcher_ok :: "Dispatcher \<Rightarrow> bool" where
  "dispatcher_ok d \<longleftrightarrow> queuePolicy (dconfig d) = REJECT \<and> maxStoredMessages (dconfig d) = 10000"

lemma dispatcher_ok_capacity: "dispatcher_ok d \<Longrightarrow> queue_capacity d = 10000"
  by (simp add: dispatcher_ok_def queue_capacity_def)

lemma queueMessage_reject: "dispatcher_ok d \<Longrightarrow> queueMessage msg (d, p) =
    (if 10000 \<le> length (messages d)
     then (False, d, LOG_WARNING ''Queue full - message rejected (policy: REJECT)'' p)
     else (True, d\<lparr>messages := messages d @ [msg]\<rparr>, p))"
  by (simp add: queueMessage_def dispatcher_ok_capacity) (simp add: dispatcher_ok_def)

lemma dispatcher_ok_push [simp]: "dispatcher_ok (d\<lparr>messages := ms\<rparr>) = dispatcher_ok d"
  by (simp add: dispatcher_ok_def)

interpretation dq: bounded_queue queueMessage "\<lambda>(d, p). messages d" "\<lambda>(d, p). queue_capacity d"
    "\<lambda>(d, p). dispatcher_ok d"
  by unfold_locales (auto simp: queueMessage_reject dispatcher_ok_capacity split: if_splits)

text \<open>The queue never grows past its capacity, under each of the three policies.\<close>

lemma queueMessage_bound:
  "0 < queue_capacity d \<Longrightarrow> length (messages d) \<le> queue_capacity d \<Longrightarrow>
   queueMessage msg (d, p) = (ok, d', p') \<Longrightarrow> length (messages d') \<le> queue_capacity d'"
  by (auto simp: queueMessage_def queue_capacity_def Let_def split: if_splits QueueFullPolicy.splits)

text \<open>\<open>dispatcher && dispatcher->queueMessage(msg)\<close> on the server.\<close>

definition server_queue :: "Message \<Rightarrow> server \<Rightarrow> bool \<times> server" where
  "server_queue msg s =
     (case dispatcher s of
        None \<Rightarrow> (False, s)
      | Some d \<Rightarrow> (let (ok, d', s') = queueMessage msg (d, s) in (ok, s'\<lparr>dispatcher := Some d'\<rparr>)))"

definition pending :: "server \<Rightarrow> Message list" where
  "pending s = (case dispatcher s of None \<Rightarrow> [] | Some d \<Rightarrow> messages d)"

definition has_room :: "server \<Rightarrow> bool" where
  "has_room s \<longleftrightarrow> (case dispatcher s of None \<Rightarrow> False | Some d \<Rightarrow> length (messages d) < queue_capacity d)"

definition queue_ok :: "server \<Rightarrow> bool" where
  "queue_ok s \<longleftrightarrow> (case dispatcher s of None \<Rightarrow> True
     | Some d \<Rightarrow> dispatcher_ok d \<and> length (messages d) \<le> 10000)"

section \<open>Delivery\<close>

definition incrementMessagesSent :: "server \<Rightarrow> server" where
  "incrementMessagesSent s = s\<lparr>totalMessagesSent := totalMessagesSent s + 1\<rparr>"

definition incrementMessagesReceived :: "server \<Rightarrow> server" where
  "incrementMessagesReceived s = s\<lparr>totalMessagesReceived := totalMessagesReceived s + 1\<rparr>"

definition undeliverable :: "string \<Rightarrow> string" where
  "undeliverable recipient =
     build ''ERROR'' [''Message to '' @ [SQ] @ recipient @ [SQ] @ '' could not be delivered: user disconnected'']"

definition message_frame :: "Message \<Rightarrow> string" where
  "message_frame msg =
     build ''MESSAGE'' [msg_from msg, subject msg, body msg, timestampToUnixString (timestamp msg)]"

text \<open>The body of the loop of \<open>run\<close> once a message has been taken off the queue.\<close>

definition deliver :: "Message \<Rightarrow> server \<Rightarrow> server" where
  "deliver msg s =
     (let recipientSocket = getUserSocket (msg_to msg) s
      in if recipientSocket \<le> 0 then
           (let s1 = LOG_WARNING (''Recipient not found or disconnected: '' @ msg_to msg
                        @ '' (message from '' @ msg_from msg @ '')'') s;
                senderSocket = getUserSocket (msg_from msg) s1
            in if senderSocket > 0 then snd (send_on senderSocket (undeliverable (msg_to msg)) s1) else s1)
         else
           (let (ok, s1) = send_on recipientSocket (message_frame msg) s
            in if ok then LOG_DEBUG (''Message dispatched from '' @ msg_from msg @ '' to '' @ msg_to msg)
                            (incrementMessagesSent s1)
               else LOG_ERROR (''Failed to send message to '' @ msg_to msg) s1))"

text \<open>
  The first half of a pass of the loop, with the condition variable satisfied by a message:
  the pop under the lock, then the configured delay without it. \<open>None\<close>: the loop does not run
  (it has been left, or it waits for a message).
\<close>

definition dispatch_take :: "server \<Rightarrow> (Message \<times> server) option" where
  "dispatch_take s =
     (case dispatcher s of
        None \<Rightarrow> None
      | Some d \<Rightarrow>
          (if \<not> running d \<or> status s \<noteq> RUNNING then None
           else case messages d of
             [] \<Rightarrow> None
           | msg # rest \<Rightarrow>
               (let s1 = s\<lparr>dispatcher := Some (d\<lparr>messages := rest\<rparr>)\<rparr>;
                    s2 = (if delayBetweenMessages (dconfig d) > 0
                          then sleep_ns (delayBetweenMessages (dconfig d) * 1000000) s1 else s1)
                in Some (msg, s2))))"

text \<open>A whole pass.\<close>

definition dispatch_step :: "server \<Rightarrow> server option" where
  "dispatch_step s = map_option (\<lambda>(msg, s1). deliver msg s1) (dispatch_take s)"

definition Dispatcher_stop :: "server \<Rightarrow> server" where
  "Dispatcher_stop s =
     (case dispatcher s of None \<Rightarrow> s
      | Some d \<Rightarrow> LOG_INFO ''Dispatcher stop requested'' (s\<lparr>dispatcher := Some (d\<lparr>running := False\<rparr>)\<rparr>))"

lemma sleep_frame [simp, frame]:
  "clients (sleep_ns d s) = clients s" "dispatcher (sleep_ns d s) = dispatcher s"
  "status (sleep_ns d s) = status s" "wire (sleep_ns d s) = wire s" "rx (sleep_ns d s) = rx s"
  "fdOpen (sleep_ns d s) = fdOpen s" "sendResult (sleep_ns d s) = sendResult s"
  "bannedUsers (sleep_ns d s) = bannedUsers s" "config (sleep_ns d s) = config s"
  "definitions (sleep_ns d s) = definitions s" "takes_all (sleep_ns d s) = takes_all s"
  "exited (sleep_ns d s) = exited s" "totalMessagesSent (sleep_ns d s) = totalMessagesSent s"
  "steadyClock (sleep_ns d s) = steadyClock s + d" "sent_to fd (sleep_ns d s) = sent_to fd s"
  by (simp_all add: sleep_ns_def takes_all_def sent_to_def fun_eq_iff)

lemma deliver_frame [simp, frame]:
  "clients (deliver msg s) = clients s" "dispatcher (deliver msg s) = dispatcher s"
  "status (deliver msg s) = status s" "bannedUsers (deliver msg s) = bannedUsers s"
  "config (deliver msg s) = config s" "definitions (deliver msg s) = definitions s"
  "fdOpen (deliver msg s) = fdOpen s" "rx (deliver msg s) = rx s" "exited (deliver msg s) = exited s"
  "sendResult (deliver msg s) = sendResult s" "steadyClock (deliver msg s) = steadyClock s"
  by (simp_all add: deliver_def Let_def case_prod_beta incrementMessagesSent_def)

lemma server_queue_frame [simp, frame]:
  "clients (snd (server_queue m s)) = clients s" "status (snd (server_queue m s)) = status s"
  "bannedUsers (snd (server_queue m s)) = bannedUsers s" "config (snd (server_queue m s)) = config s"
  "definitions (snd (server_queue m s)) = definitions s" "fdOpen (snd (server_queue m s)) = fdOpen s"
  "rx (snd (server_queue m s)) = rx s" "wire (snd (server_queue m s)) = wire s"
  "sendResult (snd (server_queue m s)) = sendResult s" "exited (snd (server_queue m s)) = exited s"
  "totalMessagesReceived (snd (server_queue m s)) = totalMessagesReceived s"
  "commands (snd (server_queue m s)) = commands s"
  "steadyClock (snd (server_queue m s)) = steadyClock s" "sysClock (snd (server_queue m s)) = sysClock s"
  by (auto simp: server_queue_def queueMessage_def Let_def split: option.splits QueueFullPolicy.splits)

lemma server_queue_running [simp]:
  "map_option running (dispatcher (snd (server_queue m s))) = map_option running (dispatcher s)"
  by (simp add: server_queue_def queueMessage_def Let_def split: option.split QueueFullPolicy.split)

lemma takes_all_server_queue [simp, frame]: "takes_all (snd (server_queue m s)) = takes_all s"
  by (rule takes_all_cong) simp_all

lemma pending_queue:
  assumes "queue_ok s" and "dispatcher s \<noteq> None"
  shows "fst (server_queue m s) = has_room s"
    "pending (snd (server_queue m s)) = pending s @ (if has_room s then [m] else [])"
    "queue_ok (snd (server_queue m s))" "dispatcher (snd (server_queue m s)) \<noteq> None"
  using assms
  by (auto simp: server_queue_def pending_def has_room_def queue_ok_def queueMessage_reject
      dispatcher_ok_capacity split: if_splits)

lemma has_room_iff: "queue_ok s \<Longrightarrow> dispatcher s \<noteq> None \<Longrightarrow> has_room s \<longleftrightarrow> length (pending s) < 10000"
  by (auto simp: has_room_def queue_ok_def pending_def dispatcher_ok_capacity)

text \<open>Seen from the server, the dispatcher is a bounded queue of 10000 messages.\<close>

definition dispatching :: "server \<Rightarrow> bool" where
  "dispatching s \<longleftrightarrow> queue_ok s \<and> dispatcher s \<noteq> None"

interpretation sq: bounded_queue server_queue pending "\<lambda>_. 10000" dispatching
  by unfold_locales (auto simp: dispatching_def pending_queue has_room_iff)

lemma dispatching_cong:
  "dispatcher s = dispatcher t \<Longrightarrow> dispatching s = dispatching t"
  "dispatcher s = dispatcher t \<Longrightarrow> pending s = pending t"
  "dispatcher s = dispatcher t \<Longrightarrow> has_room s = has_room t"
  "dispatcher s = dispatcher t \<Longrightarrow> queue_ok s = queue_ok t"
  by (simp_all add: dispatching_def queue_ok_def pending_def has_room_def)

lemma pending_bound: "dispatching s \<Longrightarrow> length (pending s) \<le> 10000"
  by (auto simp: dispatching_def queue_ok_def pending_def)

section \<open>Properties\<close>

text \<open>\<open>queueMessage\<close> under each policy: with room the message goes to the end; when the
  queue is full REJECT and DROP_NEWEST leave it as it is and say no, DROP_OLDEST drops the
  first message for the new one; the queue never holds more than its capacity.\<close>

theorem queueMessage_spec:
  assumes "0 < queue_capacity d" and "length (messages d) \<le> queue_capacity d"
    and "queueMessage m (d, p) = (ok, d', p')"
  shows "(ok \<longleftrightarrow> length (messages d) < queue_capacity d \<or> queuePolicy (dconfig d) = DROP_OLDEST) \<and>
    messages d' = (if length (messages d) < queue_capacity d then messages d @ [m]
      else if queuePolicy (dconfig d) = DROP_OLDEST then tl (messages d) @ [m] else messages d) \<and>
    length (messages d') \<le> queue_capacity d' \<and> dconfig d' = dconfig d"
  using assms
  by (auto simp: queueMessage_def queue_capacity_def Let_def split: if_splits QueueFullPolicy.splits)

theorem queueMessage_spec_witness:
  "let d = fst (Dispatcher_new idle_process); d2 = d\<lparr>dconfig := (dconfig d)\<lparr>maxStoredMessages := 1, queuePolicy := DROP_OLDEST\<rparr>,
             messages := [\<lparr>msg_from = ''a'', msg_to = ''b'', subject = ''s'', body = ''1'', timestamp = 0\<rparr>]\<rparr>;
       m = \<lparr>msg_from = ''a'', msg_to = ''b'', subject = ''s'', body = ''2'', timestamp = 0\<rparr>
   in messages (fst (snd (queueMessage m (d2, idle_process)))) = [m]"
proof -
  let ?d = "fst (Dispatcher_new idle_process)"
  let ?d2 = "?d\<lparr>dconfig := (dconfig ?d)\<lparr>maxStoredMessages := 1, queuePolicy := DROP_OLDEST\<rparr>,
             messages := [\<lparr>msg_from = ''a'', msg_to = ''b'', subject = ''s'', body = ''1'', timestamp = 0\<rparr>]\<rparr>"
  let ?m = "\<lparr>msg_from = ''a'', msg_to = ''b'', subject = ''s'', body = ''2'', timestamp = 0\<rparr>"
  obtain ok d' p' where q: "queueMessage ?m (?d2, idle_process) = (ok, d', p')" by (metis prod_cases3)
  with queueMessage_spec[of ?d2 ?m idle_process ok d' p'] show ?thesis
    by (simp add: queue_capacity_def)
qed

text \<open>C24: The server's queue is first-in first-out and bounded: queueing messages one after
  the other appends as many as there is room for, in order, up to 10000 messages in all,
  and refuses the rest.\<close>

theorem queue_fifo_bounded:
  assumes "dispatching s"
  shows "pending (fold (\<lambda>m s. snd (server_queue m s)) ms s) = pending s @ take (10000 - length (pending s)) ms \<and>
    length (pending (fold (\<lambda>m s. snd (server_queue m s)) ms s)) \<le> 10000 \<and>
    (fst (server_queue m s) \<longleftrightarrow> length (pending s) < 10000)"
proof (intro conjI)
  show many: "pending (fold (\<lambda>m s. snd (server_queue m s)) ms s) = pending s @ take (10000 - length (pending s)) ms"
    by (rule sq.offer_many[OF assms pending_bound[OF assms]])
  show "length (pending (fold (\<lambda>m s. snd (server_queue m s)) ms s)) \<le> 10000"
    unfolding many using pending_bound[OF assms] by simp
  show "fst (server_queue m s) \<longleftrightarrow> length (pending s) < 10000"
    using sq.offer_room[OF assms, of m] sq.offer_full[OF assms, of m] by force
qed

theorem queue_fifo_bounded_witness:
  "let s = (Server_new idle_process)\<lparr>dispatcher := Some (fst (Dispatcher_new idle_process))\<rparr>;
       m = \<lambda>b. \<lparr>msg_from = ''a'', msg_to = ''b'', subject = ''s'', body = b, timestamp = 0\<rparr>
   in pending (fold (\<lambda>m s. snd (server_queue m s)) [m ''1'', m ''2''] s) = [m ''1'', m ''2'']"
proof -
  let ?s = "(Server_new idle_process)\<lparr>dispatcher := Some (fst (Dispatcher_new idle_process))\<rparr>"
  have "dispatching ?s" "pending ?s = []"
    by (simp_all add: dispatching_def queue_ok_def pending_def dispatcher_ok_def Dispatcher_new_def)
  then show ?thesis
    using queue_fifo_bounded[of ?s "[\<lparr>msg_from = ''a'', msg_to = ''b'', subject = ''s'', body = ''1'', timestamp = 0\<rparr>,
      \<lparr>msg_from = ''a'', msg_to = ''b'', subject = ''s'', body = ''2'', timestamp = 0\<rparr>]"]
    by simp
qed

text \<open>What the delivery of one message puts on the sockets: a message to one socket, or nothing.\<close>

definition frames_of :: "server \<Rightarrow> Message \<Rightarrow> (fd \<times> string) list" where
  "frames_of s m =
     (let rcv = getUserSocket (msg_to m) s; sdr = getUserSocket (msg_from m) s
      in if 0 < rcv then [(rcv, message_frame m)]
         else if 0 < sdr then [(sdr, undeliverable (msg_to m))] else [])"

definition frames_to :: "fd \<Rightarrow> (fd \<times> string) list \<Rightarrow> string list" where
  "frames_to k fs = map snd (filter (\<lambda>f. fst f = k) fs)"

lemma frames_to_append: "frames_to k (fs @ gs) = frames_to k fs @ frames_to k gs"
  by (simp add: frames_to_def)

lemma frames_of_cong: "clients t = clients s \<Longrightarrow> frames_of t = frames_of s"
  by (simp add: frames_of_def getUserSocket_def fun_eq_iff)

lemma dispatch_take_runs:
  assumes "dispatcher s = Some d" and "running d" and "status s = RUNNING" and "messages d = m # rest"
  obtains s' where "dispatch_take s = Some (m, s')" and "dispatcher s' = Some (d\<lparr>messages := rest\<rparr>)"
    and "clients s' = clients s" and "status s' = RUNNING" and "exited s' = exited s"
    and "sendResult s' = sendResult s" and "fdOpen s' = fdOpen s" and "totalMessagesSent s' = totalMessagesSent s"
    and "\<And>k. sent_to k s' = sent_to k s"
proof -
  define t where "t = s\<lparr>dispatcher := Some (d\<lparr>messages := rest\<rparr>)\<rparr>"
  define t' where "t' = (if delayBetweenMessages (dconfig d) > 0
    then sleep_ns (delayBetweenMessages (dconfig d) * 1000000) t else t)"
  have "dispatch_take s = Some (m, t')" using assms by (simp add: dispatch_take_def t_def t'_def)
  then show thesis using that assms(3) by (simp add: t'_def t_def sent_to_def)
qed

lemma dispatch_step_runs:
  assumes "dispatcher s = Some d" and "running d" and "status s = RUNNING" and "messages d = m # rest"
    and "\<forall>k. 0 < k \<longrightarrow> takes_all s k"
  obtains s' where "dispatch_step s = Some s'" and "dispatcher s' = Some (d\<lparr>messages := rest\<rparr>)"
    and "clients s' = clients s" and "status s' = RUNNING" and "takes_all s' = takes_all s"
    and "\<And>k. sent_to k s' = sent_to k s @ concat (map encodeMessage (frames_to k (frames_of s m)))"
    and "totalMessagesSent s' = totalMessagesSent s + (if 0 < getUserSocket (msg_to m) s then 1 else 0)"
proof -
  obtain t' where take: "dispatch_take s = Some (m, t')"
    and t': "clients t' = clients s" "totalMessagesSent t' = totalMessagesSent s" "status t' = RUNNING"
    "dispatcher t' = Some (d\<lparr>messages := rest\<rparr>)" "sendResult t' = sendResult s" "fdOpen t' = fdOpen s"
    "\<And>k. sent_to k t' = sent_to k s"
    using dispatch_take_runs[OF assms(1-4)] by metis
  have step: "dispatch_step s = Some (deliver m t')" using take by (simp add: dispatch_step_def)
  have takes: "takes_all t' = takes_all s" using t'(5,6) by (intro takes_all_cong)
  have sock: "getUserSocket u t' = getUserSocket u s" for u using t'(1) by (simp add: getUserSocket_def)
  have log: "getUserSocket u (logger_log l x t') = getUserSocket u s" for u l x
    using sock by (simp add: getUserSocket_def)
  have "sent_to k (deliver m t') = sent_to k s @ concat (map encodeMessage (frames_to k (frames_of s m)))" for k
    using assms(5)
    by (auto simp: t' takes sock log deliver_def frames_of_def frames_to_def Let_def case_prod_beta fst_send_on_all sent_to_send_on
        incrementMessagesSent_def sent_to_def[of _ "_\<lparr>totalMessagesSent := _\<rparr>"] sent_to_def[of _ "snd _", symmetric])
  moreover have "totalMessagesSent (deliver m t') = totalMessagesSent s + (if 0 < getUserSocket (msg_to m) s then 1 else 0)"
    using assms(5)
    by (auto simp: t' takes sock log deliver_def Let_def case_prod_beta fst_send_on_all incrementMessagesSent_def)
  moreover have "takes_all (deliver m t') = takes_all s" unfolding takes[symmetric] by (rule takes_all_cong) simp_all
  ultimately show thesis using that[OF step] t' by simp
qed

text \<open>One pass of the delivery loop takes the oldest message off the queue. A recipient
  that is online and whose socket takes the bytes gets exactly one frame with the message,
  no other socket gets anything and the count of sent messages grows by one; when the
  recipient is gone, the sender, if still online, gets the error frame instead; the clients
  are as before in every case.\<close>

theorem dispatch_spec:
  assumes "dispatcher s = Some d" and "running d" and "status s = RUNNING" and "messages d = m # rest"
    and "\<forall>k. 0 < k \<longrightarrow> takes_all s k"
  shows "\<exists>s'. dispatch_step s = Some s' \<and> pending s' = rest \<and> clients s' = clients s \<and>
    (let rcv = getUserSocket (msg_to m) s; sdr = getUserSocket (msg_from m) s
     in if 0 < rcv then
          (\<forall>k. sent_to k s' = sent_to k s @ (if k = rcv then encodeMessage (message_frame m) else [])) \<and>
          totalMessagesSent s' = totalMessagesSent s + 1
        else if 0 < sdr then
          (\<forall>k. sent_to k s' = sent_to k s @ (if k = sdr then encodeMessage (undeliverable (msg_to m)) else []))
        else (\<forall>k. sent_to k s' = sent_to k s))"
proof -
  from dispatch_step_runs[OF assms] obtain s' where "dispatch_step s = Some s'"
    and "dispatcher s' = Some (d\<lparr>messages := rest\<rparr>)" and "clients s' = clients s"
    and "\<And>k. sent_to k s' = sent_to k s @ concat (map encodeMessage (frames_to k (frames_of s m)))"
    and "totalMessagesSent s' = totalMessagesSent s + (if 0 < getUserSocket (msg_to m) s then 1 else 0)"
    by metis
  then show ?thesis by (auto simp: pending_def frames_of_def frames_to_def Let_def)
qed

definition example_dispatcher :: "Message list \<Rightarrow> server" where
  "example_dispatcher ms = (Server_new idle_process)\<lparr>status := RUNNING, fdOpen := (\<lambda>_. True),
     dispatcher := Some ((fst (Dispatcher_new idle_process))\<lparr>messages := ms\<rparr>),
     clients := [(''bob'', \<lparr>socket = 7, lastPong = 0, waitingForPong = False\<rparr>)]\<rparr>"

theorem dispatch_spec_witness:
  "let m = \<lparr>msg_from = ''al'', msg_to = ''bob'', subject = ''s'', body = ''hi'', timestamp = 0\<rparr>
   in \<exists>s'. dispatch_step (example_dispatcher [m]) = Some s' \<and>
        sent_to 7 s' = sent_to 7 (example_dispatcher [m]) @ encodeMessage (message_frame m)"
proof -
  let ?m = "\<lparr>msg_from = ''al'', msg_to = ''bob'', subject = ''s'', body = ''hi'', timestamp = 0\<rparr>"
  let ?s = "example_dispatcher [?m]"
  have "sendResult ?s = (\<lambda>_ data. int (length data))"
    by (simp add: example_dispatcher_def Server_new_def idle_process_def process.defs)
  then have "\<forall>k. takes_all ?s k" by (simp add: takes_all_def example_dispatcher_def)
  with dispatch_spec[of ?s "(fst (Dispatcher_new idle_process))\<lparr>messages := [?m]\<rparr>" ?m "[]"]
  show ?thesis
    by (force simp: example_dispatcher_def Dispatcher_new_def getUserSocket_def Let_def)
qed

text \<open>As many passes as there are messages in the queue, with nothing else going on.\<close>

primrec dispatch_many :: "nat \<Rightarrow> server \<Rightarrow> server option" where
  "dispatch_many 0 s = Some s"
| "dispatch_many (Suc n) s = Option.bind (dispatch_step s) (dispatch_many n)"

lemma dispatch_many_runs:
  "dispatcher s = Some d \<Longrightarrow> running d \<Longrightarrow> status s = RUNNING \<Longrightarrow> messages d = ms @ rest \<Longrightarrow>
   \<forall>k. 0 < k \<longrightarrow> takes_all s k \<Longrightarrow>
   \<exists>s'. dispatch_many (length ms) s = Some s' \<and> dispatcher s' = Some (d\<lparr>messages := rest\<rparr>) \<and>
     clients s' = clients s \<and>
     (\<forall>k. sent_to k s' = sent_to k s @ concat (map encodeMessage (frames_to k (concat (map (frames_of s) ms)))))"
proof (induction ms arbitrary: s d)
  case Nil
  then show ?case by (simp add: frames_to_def)
next
  case (Cons m ms)
  have step: "messages d = m # (ms @ rest)" using Cons.prems(4) by simp
  obtain s1 where s1: "dispatch_step s = Some s1" "dispatcher s1 = Some (d\<lparr>messages := ms @ rest\<rparr>)"
    "clients s1 = clients s" "status s1 = RUNNING" "takes_all s1 = takes_all s"
    "\<And>k. sent_to k s1 = sent_to k s @ concat (map encodeMessage (frames_to k (frames_of s m)))"
    using dispatch_step_runs[OF Cons.prems(1-3) step Cons.prems(5)] by metis
  from Cons.IH[OF s1(2)] Cons.prems(2,5) s1(4,5) obtain s' where s': "dispatch_many (length ms) s1 = Some s'"
    "dispatcher s' = Some (d\<lparr>messages := rest\<rparr>)" "clients s' = clients s1"
    "\<forall>k. sent_to k s' = sent_to k s1 @ concat (map encodeMessage (frames_to k (concat (map (frames_of s1) ms))))"
    by auto
  with s1 frames_of_cong[OF s1(3)] show ?case by (simp add: frames_to_append)
qed



end
