(* ===== verification/Command_Handler.thy ===== *)
theory Command_Handler
  imports Dispatcher
begin

text \<open>
  The handlers of the client commands: \<open>src/Server/CommandHandler.cpp\<close>. Each takes the
  parsed fields (the command name first), the socket they came from and the server, and
  returns the new server.
\<close>

section \<open>Replies\<close>

definition sendResponse :: "fd \<Rightarrow> string \<Rightarrow> server \<Rightarrow> server" where
  "sendResponse sock message s = snd (send_on sock message s)"

definition sendOK :: "fd \<Rightarrow> string \<Rightarrow> server \<Rightarrow> server" where
  "sendOK sock message s =
     (let msg = (if message = [] then ''OK'' else message)
      in sendResponse sock (build ''OK'' [msg]) s)"

definition sendError :: "fd \<Rightarrow> string \<Rightarrow> server \<Rightarrow> server" where
  "sendError sock err s = sendResponse sock (build ''ERROR'' [err]) s"

section \<open>CONNECT\<close>

text \<open>
  The handler is two parts around the call of \<open>registerClient\<close>: the tests, each of which
  takes and releases its lock, and the registration. \<open>Some username\<close> means that every
  test passed.
\<close>

definition connect_check :: "string list \<Rightarrow> fd \<Rightarrow> server \<Rightarrow> string option \<times> server" where
  "connect_check parsedData sock s =
     (if length parsedData < 2 then (None, LOG_WARNING ''Invalid connection data'' s)
      else let username = sanitize (parsedData ! 1)
           in if \<not> isValidUsername username s then
                (None, sendError sock ''Invalid username'' (LOG_WARNING (''Invalid username: '' @ username) s))
              else if isBanned username s then
                (None, os_close sock (sendError sock ''You are banned from this server''
                          (LOG_WARNING (''Banned user connection attempt: '' @ username) s)))
              else if isUsernameTaken username s then
                (None, sendError sock ''Username already exists''
                          (LOG_WARNING (''Username already taken: '' @ username) s))
              else (Some username, s))"

definition connect_register :: "string \<Rightarrow> fd \<Rightarrow> server \<Rightarrow> server" where
  "connect_register username sock s =
     LOG_CONNECT (''New client: '' @ username) (registerClient username sock s)"

definition connect_answer :: "string \<Rightarrow> fd \<Rightarrow> server \<Rightarrow> server" where
  "connect_answer username sock s = sendResponse sock (build ''OK'' [''Connected as '' @ username]) s"

definition connect_commit :: "string \<Rightarrow> fd \<Rightarrow> server \<Rightarrow> server" where
  "connect_commit username sock s = connect_answer username sock (connect_register username sock s)"

definition handleConnect :: "string list \<Rightarrow> fd \<Rightarrow> server \<Rightarrow> server" where
  "handleConnect parsedData sock s =
     (case connect_check parsedData sock s of
        (None, s1) \<Rightarrow> s1
      | (Some username, s1) \<Rightarrow> connect_commit username sock s1)"

section \<open>DISCONNECT\<close>

text \<open>\<open>Server::stop\<close> ends with \<open>std::exit(0)\<close>.\<close>

definition Server_stop :: "server \<Rightarrow> server" where
  "Server_stop s =
     (if status s = OFF \<or> status s = STOPPING then s
      else let s1 = (LOG_INFO ''Stopping server...'' s)\<lparr>status := STOPPING\<rparr>;
               s2 = (fold (\<lambda>(username, info). os_close (socket info)) (clients s1) s1)\<lparr>clients := []\<rparr>;
               s3 = (if listenSocket (sconfig s2) > 0
                     then (os_close (listenSocket (sconfig s2)) s2)
                            \<lparr>sconfig := (sconfig s2)\<lparr>listenSocket := 0\<rparr>\<rparr>
                     else s2);
               s4 = LOG_INFO ''Server stopped'' (s3\<lparr>status := OFF\<rparr>)
           in s4\<lparr>exited := Some 0\<rparr>)"

text \<open>The destructor.\<close>

definition Server_destroy :: "server \<Rightarrow> server" where
  "Server_destroy s = Server_stop s"

text \<open>The handler looks the name up under the lock, then removes it under the lock.\<close>

definition disconnect_commit :: "string \<Rightarrow> fd \<Rightarrow> server \<Rightarrow> server" where
  "disconnect_commit username sock s =
     (let s1 = os_close sock (LOG_DISCONNECT (''Client disconnected: '' @ username)
                 (unregisterClient username s))
      in if AUTO_STOP_WHEN_NO_CLIENTS \<and> getClientCount s1 = 0
         then Server_stop (LOG_INFO ''Last client disconnected - Stopping server'' s1)
         else s1)"

definition handleDisconnect :: "fd \<Rightarrow> server \<Rightarrow> server" where
  "handleDisconnect sock s =
     (let username = getUsernameBySocket sock s
      in if username = [] then LOG_WARNING ''Disconnect attempt from unidentified client'' s
         else disconnect_commit username sock s)"

section \<open>SEND\<close>

definition broadcast :: "Message \<Rightarrow> (string, fd) umap \<Rightarrow> server \<Rightarrow> server" where
  "broadcast msg recipients s =
     fold (\<lambda>(username, userSocket) s.
             if username \<noteq> msg_from msg then snd (server_queue (msg\<lparr>msg_to := username\<rparr>) s) else s)
       recipients s"

text \<open>
  The tests, with \<open>Some msg\<close> when they are passed, and the queueing, which happens later under
  the lock of the queue.
\<close>

definition send_check :: "string list \<Rightarrow> fd \<Rightarrow> server \<Rightarrow> Message option \<times> server" where
  "send_check parsedData sock s =
     (if length parsedData < 4 then
        (None, sendError sock ''Malformed message: missing fields'' (LOG_WARNING ''Invalid message format'' s))
      else let from_user = getUsernameBySocket sock s
      in if from_user = [] then
        (None, sendError sock ''Not authenticated'' (LOG_WARNING ''Message send attempt by unauthenticated client'' s))
      else let s1 = incrementMessagesReceived s;
        msg = \<lparr>msg_from = from_user, msg_to = sanitize (parsedData ! 1),
               subject = sanitize (parsedData ! 2), body = sanitize (parsedData ! 3),
               timestamp = sysClock s1\<rparr>
      in if \<not> isValidSubject (subject msg) s1 then
        (None, sendError sock (''Subject too long (max '' @ to_string MAX_SUBJECT_LENGTH @ '' chars)'')
          (LOG_WARNING (''Invalid subject from '' @ from_user @ '' (max ''
              @ to_string MAX_SUBJECT_LENGTH @ '' characters)'') s1))
      else if \<not> isValidBody (body msg) then
        (None, sendError sock ''Body is empty'' (LOG_WARNING (''Invalid message body from '' @ from_user) s1))
      else if msg_to msg \<noteq> ''all'' \<and> getUserSocket (msg_to msg) s1 \<le> 0 then
        (None, sendError sock (''User '' @ [SQ] @ msg_to msg @ [SQ] @ '' does not exist or is offline'')
          (LOG_WARNING (''Non-existent recipient: '' @ msg_to msg @ '' (from '' @ from_user @ '')'') s1))
      else (Some msg, s1))"

definition send_commit :: "Message \<Rightarrow> fd \<Rightarrow> server \<Rightarrow> server" where
  "send_commit msg sock s =
     (if msg_to msg = ''all'' then
        (let s1 = LOG_INFO (''Broadcast from '' @ msg_from msg) s
         in sendOK sock ''Broadcast sent'' (broadcast msg (getAllClients s1) s1))
      else let (queued, s1) = server_queue msg s
      in if queued then
        sendOK sock ''Message sent'' (LOG_DEBUG (''Message from '' @ msg_from msg @ '' added to queue'') s1)
      else
        sendError sock ''Failed to send message: queue full or dispatcher error''
          (LOG_ERROR ''Failed to add message to queue'' s1))"

definition handleSendMessage :: "string list \<Rightarrow> fd \<Rightarrow> server \<Rightarrow> server" where
  "handleSendMessage parsedData sock s =
     (case send_check parsedData sock s of
        (None, s1) \<Rightarrow> s1
      | (Some msg, s1) \<Rightarrow> send_commit msg sock s1)"

text \<open>The two parts put together.\<close>

lemma handleSendMessage_eq:
  "handleSendMessage parsedData sock s =
     (if length parsedData < 4 then
        sendError sock ''Malformed message: missing fields'' (LOG_WARNING ''Invalid message format'' s)
      else let from_user = getUsernameBySocket sock s
      in if from_user = [] then
        sendError sock ''Not authenticated'' (LOG_WARNING ''Message send attempt by unauthenticated client'' s)
      else let s1 = incrementMessagesReceived s;
        msg = \<lparr>msg_from = from_user, msg_to = sanitize (parsedData ! 1),
               subject = sanitize (parsedData ! 2), body = sanitize (parsedData ! 3),
               timestamp = sysClock s1\<rparr>
      in if \<not> isValidSubject (subject msg) s1 then
        sendError sock (''Subject too long (max '' @ to_string MAX_SUBJECT_LENGTH @ '' chars)'')
          (LOG_WARNING (''Invalid subject from '' @ from_user @ '' (max ''
              @ to_string MAX_SUBJECT_LENGTH @ '' characters)'') s1)
      else if \<not> isValidBody (body msg) then
        sendError sock ''Body is empty'' (LOG_WARNING (''Invalid message body from '' @ from_user) s1)
      else if msg_to msg = ''all'' then
        (let s2 = LOG_INFO (''Broadcast from '' @ from_user) s1
         in sendOK sock ''Broadcast sent'' (broadcast msg (getAllClients s2) s2))
      else if getUserSocket (msg_to msg) s1 \<le> 0 then
        sendError sock (''User '' @ [SQ] @ msg_to msg @ [SQ] @ '' does not exist or is offline'')
          (LOG_WARNING (''Non-existent recipient: '' @ msg_to msg @ '' (from '' @ from_user @ '')'') s1)
      else let (queued, s2) = server_queue msg s1
      in if queued then
        sendOK sock ''Message sent'' (LOG_DEBUG (''Message from '' @ from_user @ '' added to queue'') s2)
      else
        sendError sock ''Failed to send message: queue full or dispatcher error''
          (LOG_ERROR ''Failed to add message to queue'' s2))"
proof (cases "length parsedData < 4 \<or> getUsernameBySocket sock s = []")
  case True
  then show ?thesis by (auto simp: handleSendMessage_def send_check_def)
next
  case False
  note n = this
  show ?thesis
  proof (cases "isValidSubject (sanitize (parsedData ! 2)) (incrementMessagesReceived s) \<and> isValidBody (sanitize (parsedData ! 3))")
    case False
    with n show ?thesis by (auto simp: handleSendMessage_def send_check_def Let_def)
  next
    case True
    show ?thesis
    proof (cases "sanitize (parsedData ! 1) = ''all''")
      case all: True
      with n True show ?thesis by (simp add: handleSendMessage_def send_check_def send_commit_def Let_def)
    next
      case other: False
      show ?thesis
      proof (cases "getUserSocket (sanitize (parsedData ! 1)) (incrementMessagesReceived s) \<le> 0")
        case gone: True
        with n True other show ?thesis by (simp add: handleSendMessage_def send_check_def Let_def)
      next
        case there: False
        with n True other show ?thesis
          by (simp add: handleSendMessage_def send_check_def send_commit_def Let_def case_prod_beta)
      qed
    qed
  qed
qed

section \<open>PING, PONG, LIST_USERS, GET_LOG\<close>

definition handlePing :: "fd \<Rightarrow> server \<Rightarrow> server" where
  "handlePing sock s = LOG_DEBUG ''PING received, PONG sent'' (sendResponse sock (''PONG'' @ [NL]) s)"

definition pong_commit :: "string \<Rightarrow> server \<Rightarrow> server" where
  "pong_commit username s = LOG_DEBUG (''PONG received from '' @ username) (updateClientPong username s)"

definition handlePong :: "fd \<Rightarrow> server \<Rightarrow> server" where
  "handlePong sock s =
     (let username = getUsernameBySocket sock s
      in if username = [] then s
         else pong_commit username s)"

definition user_list :: "(string, fd) umap \<Rightarrow> string" where
  "user_list recipients =
     (let userList = fold (\<lambda>(username, userSocket) acc. acc @ username @ '','') recipients []
      in if userList \<noteq> [] \<and> last userList = CHR '','' then butlast userList else userList)"

definition handleListUsers :: "fd \<Rightarrow> server \<Rightarrow> server" where
  "handleListUsers sock s =
     LOG_DEBUG ''User list sent''
       (sendResponse sock (build ''USERS'' [user_list (getAllClients s)]) s)"

definition handleGetLog :: "fd \<Rightarrow> server \<Rightarrow> server" where
  "handleGetLog sock s =
     (case files s DEFAULT_SERVER_LOG of
        None \<Rightarrow> sendError sock ''Log file not available''
                  (LOG_WARNING (''Cannot open log file: '' @ DEFAULT_SERVER_LOG) s)
      | Some content \<Rightarrow>
          (let lines = getlines content
           in if lines = [] then
                LOG_DEBUG ''Empty log sent'' (sendResponse sock (build ''LOG'' [''Log file is empty'']) s)
              else let start = (if length lines > 50 then length lines - 50 else 0);
                       logContent = concat (map (\<lambda>l. l @ [NL]) (drop start lines))
                   in LOG_DEBUG (''Log sent ('' @ to_string (int (length lines - start)) @ '' lines)'')
                        (sendResponse sock (build ''LOG'' [logContent]) s)))"

section \<open>Frame facts\<close>

lemma sendResponse_frame [simp, frame]:
  "clients (sendResponse k m s) = clients s" "dispatcher (sendResponse k m s) = dispatcher s"
  "status (sendResponse k m s) = status s" "bannedUsers (sendResponse k m s) = bannedUsers s"
  "config (sendResponse k m s) = config s" "definitions (sendResponse k m s) = definitions s"
  "fdOpen (sendResponse k m s) = fdOpen s" "rx (sendResponse k m s) = rx s"
  "sendResult (sendResponse k m s) = sendResult s" "takes_all (sendResponse k m s) = takes_all s"
  "exited (sendResponse k m s) = exited s" "files (sendResponse k m s) = files s"
  "steadyClock (sendResponse k m s) = steadyClock s" "commands (sendResponse k m s) = commands s"
  "threadPool (sendResponse k m s) = threadPool s"
  "totalMessagesReceived (sendResponse k m s) = totalMessagesReceived s"
  "logFile (sendResponse k m s) = logFile s"
  by (simp_all add: sendResponse_def)

lemma sendError_frame [simp, frame]:
  "clients (sendError k m s) = clients s" "dispatcher (sendError k m s) = dispatcher s"
  "status (sendError k m s) = status s" "bannedUsers (sendError k m s) = bannedUsers s"
  "config (sendError k m s) = config s" "definitions (sendError k m s) = definitions s"
  "fdOpen (sendError k m s) = fdOpen s" "rx (sendError k m s) = rx s"
  "exited (sendError k m s) = exited s" "steadyClock (sendError k m s) = steadyClock s"
  "totalMessagesReceived (sendError k m s) = totalMessagesReceived s" "commands (sendError k m s) = commands s"
  by (simp_all add: sendError_def)

lemma sendOK_frame [simp, frame]:
  "clients (sendOK k m s) = clients s" "dispatcher (sendOK k m s) = dispatcher s"
  "status (sendOK k m s) = status s" "bannedUsers (sendOK k m s) = bannedUsers s"
  "config (sendOK k m s) = config s" "definitions (sendOK k m s) = definitions s"
  "fdOpen (sendOK k m s) = fdOpen s" "rx (sendOK k m s) = rx s"
  "exited (sendOK k m s) = exited s" "steadyClock (sendOK k m s) = steadyClock s"
  "totalMessagesReceived (sendOK k m s) = totalMessagesReceived s" "commands (sendOK k m s) = commands s"
  by (simp_all add: sendOK_def)

lemma pong_frame [simp, frame]:
  "dispatcher (updateClientPong u s) = dispatcher s" "config (updateClientPong u s) = config s"
  "definitions (updateClientPong u s) = definitions s" "status (updateClientPong u s) = status s"
  "bannedUsers (updateClientPong u s) = bannedUsers s" "fdOpen (updateClientPong u s) = fdOpen s"
  "exited (updateClientPong u s) = exited s" "rx (updateClientPong u s) = rx s"
  "commands (updateClientPong u s) = commands s"
  by (simp_all add: updateClientPong_def split: option.split)

lemma register_frame [simp, frame]:
  "dispatcher (registerClient u k s) = dispatcher s" "config (registerClient u k s) = config s"
  "definitions (registerClient u k s) = definitions s" "status (registerClient u k s) = status s"
  "bannedUsers (registerClient u k s) = bannedUsers s" "fdOpen (registerClient u k s) = fdOpen s"
  "exited (registerClient u k s) = exited s" "rx (registerClient u k s) = rx s"
  "takes_all (registerClient u k s) = takes_all s" "commands (registerClient u k s) = commands s"
  "wire (registerClient u k s) = wire s"
  by (simp_all add: registerClient_def takes_all_def fun_eq_iff)

lemma unregister_frame [simp, frame]:
  "dispatcher (unregisterClient u s) = dispatcher s" "config (unregisterClient u s) = config s"
  "definitions (unregisterClient u s) = definitions s" "status (unregisterClient u s) = status s"
  "bannedUsers (unregisterClient u s) = bannedUsers s" "fdOpen (unregisterClient u s) = fdOpen s"
  "exited (unregisterClient u s) = exited s" "rx (unregisterClient u s) = rx s"
  "clients (unregisterClient u s) = um_erase u (clients s)" "commands (unregisterClient u s) = commands s"
  by (simp_all add: unregisterClient_def)

lemma received_frame [simp, frame]:
  "clients (incrementMessagesReceived s) = clients s" "dispatcher (incrementMessagesReceived s) = dispatcher s"
  "config (incrementMessagesReceived s) = config s" "definitions (incrementMessagesReceived s) = definitions s"
  "status (incrementMessagesReceived s) = status s" "bannedUsers (incrementMessagesReceived s) = bannedUsers s"
  "fdOpen (incrementMessagesReceived s) = fdOpen s" "exited (incrementMessagesReceived s) = exited s"
  "rx (incrementMessagesReceived s) = rx s" "sysClock (incrementMessagesReceived s) = sysClock s"
  "commands (incrementMessagesReceived s) = commands s"
  by (simp_all add: incrementMessagesReceived_def)

section \<open>Lookups after an operation\<close>

lemma clients_register [simp]:
  "clients (registerClient u k s) = um_put u \<lparr>socket = k, lastPong = steadyClock s, waitingForPong = False\<rparr> (clients s)"
  by (simp add: registerClient_def)

lemma getUserSocket_register:
  "getUserSocket v (registerClient u k s) = (if v = u then k else getUserSocket v s)"
  by (simp add: getUserSocket_def)

lemma getUserSocket_cong: "clients s = clients t \<Longrightarrow> getUserSocket u s = getUserSocket u t"
  by (simp add: getUserSocket_def)

lemma getUsername_cong: "clients s = clients t \<Longrightarrow> getUsernameBySocket k s = getUsernameBySocket k t"
  by (simp add: getUsernameBySocket_def)

section \<open>CONNECT and DISCONNECT on the registry\<close>

definition connect_ok :: "string \<Rightarrow> server \<Rightarrow> bool" where
  "connect_ok u s \<longleftrightarrow> isValidUsername u s \<and> u \<notin> set (bannedUsers s) \<and> map_of (clients s) u = None"

lemma connect_check_Some:
  "connect_check parsedData k s = (Some u, s') \<longleftrightarrow>
   2 \<le> length parsedData \<and> u = sanitize (parsedData ! 1) \<and> s' = s \<and> connect_ok u s"
  by (auto simp: connect_check_def connect_ok_def isBanned_def isUsernameTaken_def Let_def)

lemma connect_check_frame [simp, frame]:
  "clients (snd (connect_check a k s)) = clients s" "dispatcher (snd (connect_check a k s)) = dispatcher s"
  "config (snd (connect_check a k s)) = config s" "definitions (snd (connect_check a k s)) = definitions s"
  "bannedUsers (snd (connect_check a k s)) = bannedUsers s" "status (snd (connect_check a k s)) = status s"
  "rx (snd (connect_check a k s)) = rx s" "exited (snd (connect_check a k s)) = exited s"
  "commands (snd (connect_check a k s)) = commands s"
  by (simp_all add: connect_check_def Let_def)

lemma connect_parts_frame [simp, frame]:
  "clients (connect_register u k s) = clients (registerClient u k s)" "clients (connect_answer u k s) = clients s"
  "dispatcher (connect_register u k s) = dispatcher s" "dispatcher (connect_answer u k s) = dispatcher s"
  "config (connect_register u k s) = config s" "config (connect_answer u k s) = config s"
  "definitions (connect_register u k s) = definitions s" "definitions (connect_answer u k s) = definitions s"
  "bannedUsers (connect_register u k s) = bannedUsers s" "bannedUsers (connect_answer u k s) = bannedUsers s"
  "status (connect_register u k s) = status s" "status (connect_answer u k s) = status s"
  "fdOpen (connect_register u k s) = fdOpen s" "fdOpen (connect_answer u k s) = fdOpen s"
  "exited (connect_register u k s) = exited s" "exited (connect_answer u k s) = exited s"
  by (simp_all add: connect_register_def connect_answer_def)

lemma connect_commit_frame [simp, frame]:
  "clients (connect_commit u k s) = clients (registerClient u k s)"
  "dispatcher (connect_commit u k s) = dispatcher s" "config (connect_commit u k s) = config s"
  "definitions (connect_commit u k s) = definitions s" "rx (connect_commit u k s) = rx s"
  "bannedUsers (connect_commit u k s) = bannedUsers s" "status (connect_commit u k s) = status s"
  "fdOpen (connect_commit u k s) = fdOpen s" "exited (connect_commit u k s) = exited s"
  "commands (connect_commit u k s) = commands s"
  by (simp_all add: connect_commit_def connect_register_def connect_answer_def)

lemma handleConnect_frame [simp, frame]:
  "dispatcher (handleConnect a k s) = dispatcher s" "config (handleConnect a k s) = config s"
  "definitions (handleConnect a k s) = definitions s" "rx (handleConnect a k s) = rx s"
  "bannedUsers (handleConnect a k s) = bannedUsers s" "status (handleConnect a k s) = status s"
  "exited (handleConnect a k s) = exited s" "commands (handleConnect a k s) = commands s"
  by (simp_all add: handleConnect_def case_prod_beta split: option.split)

lemma clients_handleConnect:
  "clients (handleConnect a k s) =
    (if 2 \<le> length a \<and> connect_ok (sanitize (a ! 1)) s
     then um_put (sanitize (a ! 1)) \<lparr>socket = k, lastPong = steadyClock s, waitingForPong = False\<rparr> (clients s)
     else clients s)"
proof (cases "connect_check a k s")
  case (Pair r s1)
  show ?thesis
  proof (cases r)
    case None
    with Pair connect_check_Some[of a k s "sanitize (a ! 1)" s]
    have "\<not> (2 \<le> length a \<and> connect_ok (sanitize (a ! 1)) s)" by auto
    with Pair None connect_check_frame(1)[of a k s] show ?thesis by (auto simp: handleConnect_def)
  next
    case (Some u)
    with Pair have cc: "connect_check a k s = (Some u, s1)" by simp
    then have "2 \<le> length a" "sanitize (a ! 1) = u" "s1 = s" "connect_ok u s"
      using connect_check_Some[of a k s u s1] by auto
    with cc show ?thesis by (simp add: handleConnect_def)
  qed
qed

text \<open>The stop of the server at the last disconnection is compiled out by its constant.\<close>

lemma handleDisconnect_eq: "handleDisconnect k s =
    (if getUsernameBySocket k s = [] then LOG_WARNING ''Disconnect attempt from unidentified client'' s
     else os_close k (LOG_DISCONNECT (''Client disconnected: '' @ getUsernameBySocket k s)
            (unregisterClient (getUsernameBySocket k s) s)))"
  by (simp add: handleDisconnect_def disconnect_commit_def AUTO_STOP_WHEN_NO_CLIENTS_def Let_def)

lemma handleDisconnect_frame [simp, frame]:
  "dispatcher (handleDisconnect k s) = dispatcher s" "config (handleDisconnect k s) = config s"
  "definitions (handleDisconnect k s) = definitions s" "rx (handleDisconnect k s) = rx s"
  "bannedUsers (handleDisconnect k s) = bannedUsers s" "status (handleDisconnect k s) = status s"
  "exited (handleDisconnect k s) = exited s" "commands (handleDisconnect k s) = commands s"
  by (simp_all add: handleDisconnect_eq)

lemma clients_handleDisconnect:
  "clients (handleDisconnect k s) =
    (if getUsernameBySocket k s = [] then clients s else um_erase (getUsernameBySocket k s) (clients s))"
  by (simp add: handleDisconnect_eq)

lemma fdOpen_handleDisconnect:
  "fdOpen (handleDisconnect k s) =
    (if getUsernameBySocket k s = [] then fdOpen s else (fdOpen s)(k := False))"
  by (simp add: handleDisconnect_eq)

section \<open>SEND on the queue\<close>

definition recipients_of :: "Message \<Rightarrow> (string, fd) umap \<Rightarrow> Message list" where
  "recipients_of msg rs = map (\<lambda>(u, k). msg\<lparr>msg_to := u\<rparr>) (filter (\<lambda>(u, k). u \<noteq> msg_from msg) rs)"

lemma broadcast_fold:
  "broadcast msg rs s = fold (\<lambda>m s. snd (server_queue m s)) (recipients_of msg rs) s"
  unfolding broadcast_def recipients_of_def
  by (induction rs arbitrary: s) auto

lemma broadcast_frame [simp, frame]:
  "clients (broadcast m rs s) = clients s" "status (broadcast m rs s) = status s"
  "bannedUsers (broadcast m rs s) = bannedUsers s" "config (broadcast m rs s) = config s"
  "definitions (broadcast m rs s) = definitions s" "fdOpen (broadcast m rs s) = fdOpen s"
  "rx (broadcast m rs s) = rx s" "wire (broadcast m rs s) = wire s" "exited (broadcast m rs s) = exited s"
  "takes_all (broadcast m rs s) = takes_all s" "commands (broadcast m rs s) = commands s"
proof -
  have "clients (fold (\<lambda>m s. snd (server_queue m s)) ms s) = clients s
    \<and> status (fold (\<lambda>m s. snd (server_queue m s)) ms s) = status s
    \<and> bannedUsers (fold (\<lambda>m s. snd (server_queue m s)) ms s) = bannedUsers s
    \<and> config (fold (\<lambda>m s. snd (server_queue m s)) ms s) = config s
    \<and> definitions (fold (\<lambda>m s. snd (server_queue m s)) ms s) = definitions s
    \<and> fdOpen (fold (\<lambda>m s. snd (server_queue m s)) ms s) = fdOpen s
    \<and> rx (fold (\<lambda>m s. snd (server_queue m s)) ms s) = rx s
    \<and> wire (fold (\<lambda>m s. snd (server_queue m s)) ms s) = wire s
    \<and> exited (fold (\<lambda>m s. snd (server_queue m s)) ms s) = exited s
    \<and> takes_all (fold (\<lambda>m s. snd (server_queue m s)) ms s) = takes_all s
    \<and> commands (fold (\<lambda>m s. snd (server_queue m s)) ms s) = commands s" for ms
    by (induction ms arbitrary: s) simp_all
  then show "clients (broadcast m rs s) = clients s" "status (broadcast m rs s) = status s"
    "bannedUsers (broadcast m rs s) = bannedUsers s" "config (broadcast m rs s) = config s"
    "definitions (broadcast m rs s) = definitions s" "fdOpen (broadcast m rs s) = fdOpen s"
    "rx (broadcast m rs s) = rx s" "wire (broadcast m rs s) = wire s" "exited (broadcast m rs s) = exited s"
    "takes_all (broadcast m rs s) = takes_all s" "commands (broadcast m rs s) = commands s"
    by (simp_all add: broadcast_fold)
qed

lemma pending_broadcast:
  assumes "dispatching s"
  shows "pending (broadcast msg rs s) = pending s @ take (10000 - length (pending s)) (recipients_of msg rs)"
    "dispatching (broadcast msg rs s)"
  using sq.offer_many[OF assms pending_bound[OF assms]] sq.offer_many_inv[OF assms]
  by (simp_all add: broadcast_fold)

text \<open>The message that SEND builds, and the tests it must pass.\<close>

definition the_message :: "string list \<Rightarrow> fd \<Rightarrow> server \<Rightarrow> Message" where
  "the_message a k s =
     \<lparr>msg_from = getUsernameBySocket k s, msg_to = sanitize (a ! 1), subject = sanitize (a ! 2),
      body = sanitize (a ! 3), timestamp = sysClock s\<rparr>"

definition send_accepted :: "string list \<Rightarrow> fd \<Rightarrow> server \<Rightarrow> bool" where
  "send_accepted a k s \<longleftrightarrow> 4 \<le> length a \<and> getUsernameBySocket k s \<noteq> [] \<and>
     isValidSubject (sanitize (a ! 2)) s \<and> a ! 3 \<noteq> []"

lemma handleSendMessage_frame [simp, frame]:
  "clients (handleSendMessage a k s) = clients s" "config (handleSendMessage a k s) = config s"
  "definitions (handleSendMessage a k s) = definitions s" "rx (handleSendMessage a k s) = rx s"
  "bannedUsers (handleSendMessage a k s) = bannedUsers s" "status (handleSendMessage a k s) = status s"
  "fdOpen (handleSendMessage a k s) = fdOpen s" "exited (handleSendMessage a k s) = exited s"
  "commands (handleSendMessage a k s) = commands s"
  by (simp_all add: handleSendMessage_eq Let_def case_prod_beta)

lemma subject_received [simp]:
  "isValidSubject x (incrementMessagesReceived s) = isValidSubject x s"
  "getUserSocket u (incrementMessagesReceived s) = getUserSocket u s"
  "getAllClients (incrementMessagesReceived s) = getAllClients s"
  "getAllClients (logger_log l m s) = getAllClients s"
  "getUsernameBySocket k (logger_log l m s) = getUsernameBySocket k s"
  "getUserSocket u (logger_log l m s) = getUserSocket u s"
  by (rule validity_cong) (simp_all add: getUserSocket_def getAllClients_def getUsernameBySocket_def)

lemma pending_received [simp]: "pending (incrementMessagesReceived s) = pending s"
  "dispatching (incrementMessagesReceived s) = dispatching s"
  by (simp_all add: dispatching_cong[of "incrementMessagesReceived s" s])

lemma pending_other [simp]:
  "pending (sendResponse k m s) = pending s" "pending (sendError k m s) = pending s"
  "pending (sendOK k m s) = pending s" "pending (logger_log l m s) = pending s"
  "dispatching (sendResponse k m s) = dispatching s" "dispatching (sendError k m s) = dispatching s"
  "dispatching (sendOK k m s) = dispatching s" "dispatching (logger_log l m s) = dispatching s"
  by (simp_all add: dispatching_def pending_def queue_ok_def)

lemma pending_handleSend:
  assumes "dispatching s"
  shows "pending (handleSendMessage a k s) = pending s @
    (if \<not> send_accepted a k s then []
     else take (10000 - length (pending s))
       (if sanitize (a ! 1) = ''all'' then recipients_of (the_message a k s) (getAllClients s)
        else if 0 < getUserSocket (sanitize (a ! 1)) s then [the_message a k s] else []))"
    (is ?pending) and "dispatching (handleSendMessage a k s)" (is ?disp)
proof -
  note qs = sq.offer_contents[where q = "incrementMessagesReceived s"]
    sq.offer_inv[where q = "incrementMessagesReceived s"]
  show ?pending ?disp
    using assms pending_bound[OF assms] qs
    by (auto simp: handleSendMessage_eq send_accepted_def the_message_def isValidBody_def Let_def
        case_prod_beta pending_broadcast take_Cons')
qed

text \<open>The two parts of SEND.\<close>

lemma send_check_Some:
  assumes "send_check a k s = (Some m, s')"
  shows "send_accepted a k s" "m = the_message a k s" "s' = incrementMessagesReceived s"
    "msg_to m = ''all'' \<or> 0 < getUserSocket (msg_to m) s"
proof -
  have "sysClock (incrementMessagesReceived s) = sysClock s" by simp
  with assms show "send_accepted a k s" "m = the_message a k s" "s' = incrementMessagesReceived s"
    "msg_to m = ''all'' \<or> 0 < getUserSocket (msg_to m) s"
    by (auto simp: send_check_def send_accepted_def the_message_def isValidBody_def Let_def not_le split: if_splits)
qed

lemma send_commit_frame [simp, frame]:
  "clients (send_commit m k s) = clients s" "config (send_commit m k s) = config s"
  "definitions (send_commit m k s) = definitions s" "rx (send_commit m k s) = rx s"
  "bannedUsers (send_commit m k s) = bannedUsers s" "status (send_commit m k s) = status s"
  "fdOpen (send_commit m k s) = fdOpen s" "exited (send_commit m k s) = exited s"
  by (simp_all add: send_commit_def Let_def case_prod_beta)

lemma pending_send_commit:
  assumes "dispatching s"
  shows "pending (send_commit m k s) = pending s @ take (10000 - length (pending s))
      (if msg_to m = ''all'' then recipients_of m (getAllClients s) else [m])"
    "dispatching (send_commit m k s)"
  using assms pending_bound[OF assms] sq.offer_contents[OF assms, of m] sq.offer_inv[OF assms, of m]
  by (auto simp: send_commit_def Let_def case_prod_beta pending_broadcast take_Cons')

lemma disconnect_commit_eq:
  "disconnect_commit u k s = os_close k (LOG_DISCONNECT (''Client disconnected: '' @ u) (unregisterClient u s))"
  by (simp add: disconnect_commit_def AUTO_STOP_WHEN_NO_CLIENTS_def Let_def)

section \<open>Replies on the wire\<close>

text \<open>What a connection gets in answer to CONNECT.\<close>

definition connect_reply :: "string \<Rightarrow> server \<Rightarrow> string" where
  "connect_reply u s =
     (if \<not> isValidUsername u s then build ''ERROR'' [''Invalid username'']
      else if isBanned u s then build ''ERROR'' [''You are banned from this server'']
      else if isUsernameTaken u s then build ''ERROR'' [''Username already exists'']
      else build ''OK'' [''Connected as '' @ u])"

lemma sent_to_response: "takes_all s fd \<Longrightarrow> 0 \<le> fd \<Longrightarrow>
    sent_to k (sendResponse fd m s) = sent_to k s @ (if k = fd then encodeMessage m else [])"
  by (simp add: sendResponse_def sent_to_send_on)

lemma sent_to_register [simp]: "sent_to k (registerClient u fd s) = sent_to k s"
  by (rule sent_to_cong) simp

lemma sent_to_handleConnect:
  assumes "takes_all s fd" and "0 \<le> fd" and "2 \<le> length a"
  shows "sent_to k (handleConnect a fd s) =
    sent_to k s @ (if k = fd then encodeMessage (connect_reply (sanitize (a ! 1)) s) else [])"
  using assms
  by (simp add: handleConnect_def connect_check_def connect_commit_def connect_register_def connect_answer_def connect_reply_def Let_def
      sendError_def sent_to_response)

lemma fdOpen_handleConnect:
  "fdOpen (handleConnect a k s) =
    (if 2 \<le> length a \<and> isValidUsername (sanitize (a ! 1)) s \<and> isBanned (sanitize (a ! 1)) s
     then (fdOpen s)(k := False) else fdOpen s)"
  by (simp add: handleConnect_def connect_check_def connect_commit_def connect_register_def connect_answer_def Let_def)

text \<open>What it gets in answer to SEND.\<close>

definition send_reply :: "string list \<Rightarrow> fd \<Rightarrow> server \<Rightarrow> string" where
  "send_reply a fd s =
     (if length a < 4 then build ''ERROR'' [''Malformed message: missing fields'']
      else if getUsernameBySocket fd s = [] then build ''ERROR'' [''Not authenticated'']
      else if \<not> isValidSubject (sanitize (a ! 2)) s
        then build ''ERROR'' [''Subject too long (max '' @ to_string MAX_SUBJECT_LENGTH @ '' chars)'']
      else if a ! 3 = [] then build ''ERROR'' [''Body is empty'']
      else if sanitize (a ! 1) = ''all'' then build ''OK'' [''Broadcast sent'']
      else if getUserSocket (sanitize (a ! 1)) s \<le> 0
        then build ''ERROR'' [''User '' @ [SQ] @ sanitize (a ! 1) @ [SQ] @ '' does not exist or is offline'']
      else if has_room s then build ''OK'' [''Message sent'']
      else build ''ERROR'' [''Failed to send message: queue full or dispatcher error''])"

lemma sent_to_received [simp]: "sent_to k (incrementMessagesReceived s) = sent_to k s"
  "takes_all (incrementMessagesReceived s) = takes_all s" "has_room (incrementMessagesReceived s) = has_room s"
  by (simp_all add: incrementMessagesReceived_def sent_to_def takes_all_def fun_eq_iff has_room_def)

lemma sent_to_broadcast [simp]: "sent_to k (broadcast m rs s) = sent_to k s"
  "sent_to k (snd (server_queue m s)) = sent_to k s"
  by (rule sent_to_cong, simp)+

lemma sent_to_handleSend:
  assumes "takes_all s fd" and "0 \<le> fd" and "dispatching s"
  shows "sent_to k (handleSendMessage a fd s) =
    sent_to k s @ (if k = fd then encodeMessage (send_reply a fd s) else [])"
proof -
  have "fst (server_queue m (incrementMessagesReceived s)) = has_room s" for m
    using assms(3) pending_queue(1)[of "incrementMessagesReceived s" m]
    by (simp add: dispatching_def dispatching_cong(4)[of "incrementMessagesReceived s" s])
  with assms(1,2) show ?thesis
    by (simp add: handleSendMessage_eq send_reply_def Let_def case_prod_beta isValidBody_def
        sendError_def sendOK_def sent_to_response)
qed

text \<open>A broadcast has one copy for each other client.\<close>

lemma recipients_names:
  assumes "um_valid (clients s)"
  shows "distinct (map msg_to (recipients_of m (getAllClients s)))"
    "set (map msg_to (recipients_of m (getAllClients s))) = fst ` set (clients s) - {msg_from m}"
    "length (recipients_of m (getAllClients s)) \<le> length (clients s)"
proof -
  have to: "map msg_to (recipients_of m rs) = filter (\<lambda>u. u \<noteq> msg_from m) (map fst rs)" for rs
    by (induction rs) (auto simp: recipients_of_def)
  have d: "distinct (map fst (getAllClients s))" using getAllClients_valid[of s] by (simp add: um_valid_def)
  then show "distinct (map msg_to (recipients_of m (getAllClients s)))" unfolding to by simp
  show names: "set (map msg_to (recipients_of m (getAllClients s))) = fst ` set (clients s) - {msg_from m}"
    unfolding to using fst_getAllClients[of s] by auto
  have "length (getAllClients s) = card (fst ` set (clients s))"
    using distinct_card[OF d] fst_getAllClients[of s] by simp
  also have "\<dots> \<le> length (clients s)" by (metis card_length length_map set_map)
  finally show "length (recipients_of m (getAllClients s)) \<le> length (clients s)"
    unfolding recipients_of_def by (metis le_trans length_filter_le length_map)
qed

lemma connect_ok_handleConnect:
  "connect_ok v (handleConnect a k s) \<longleftrightarrow> isValidUsername v s \<and> v \<notin> set (bannedUsers s) \<and>
     map_of (clients (handleConnect a k s)) v = None"
  using validity_cong(1)[of "handleConnect a k s" s v] by (simp add: connect_ok_def)

section \<open>Properties\<close>

definition example_server :: "(string, ClientInfo) umap \<Rightarrow> server" where
  "example_server cs = (Server_new (RuntimeConfig_init idle_process))\<lparr>status := RUNNING, fdOpen := (\<lambda>_. True),
     dispatcher := Some (fst (Dispatcher_new idle_process)), clients := cs\<rparr>"

abbreviation online :: "fd \<Rightarrow> ClientInfo" where
  "online k \<equiv> \<lparr>socket = k, lastPong = 0, waitingForPong = False\<rparr>"

lemma example_server_simps [simp]:
  "clients (example_server cs) = cs" "bannedUsers (example_server cs) = []"
  "status (example_server cs) = RUNNING" "takes_all (example_server cs) k"
  "dispatching (example_server cs)" "pending (example_server cs) = []"
  "steadyClock (example_server cs) = 0" "sysClock (example_server cs) = 0"
  "logFile (example_server cs) = None" "commands (example_server cs) = []"
  "config_wf (example_server cs)" "exited (example_server cs) = None" "wire (example_server cs) = []"
proof -
  have "sendResult (example_server cs) = (\<lambda>_ data. int (length data))"
    by (simp add: example_server_def Server_new_def RuntimeConfig_init_def idle_process_def process.defs)
  then show "takes_all (example_server cs) k" by (simp add: takes_all_def example_server_def)
  have "config_wf (example_server cs) = config_wf (RuntimeConfig_init idle_process)"
    by (simp add: config_wf_def example_server_def Server_new_def process.defs)
  then show "config_wf (example_server cs)" using config_wf_init by simp
qed (simp_all add: example_server_def Server_new_def RuntimeConfig_init_def idle_process_def process.defs
      server.defs dispatching_def pending_def queue_ok_def dispatcher_ok_def Dispatcher_new_def)

lemma example_limits:
  "length_limit ''MAX_USERNAME_LENGTH'' MAX_USERNAME_LENGTH (RuntimeConfig_init p) = 32"
  "length_limit ''MAX_SUBJECT_LENGTH'' MAX_SUBJECT_LENGTH (RuntimeConfig_init p) = 100"
proof -
  have "map_of (config (RuntimeConfig_init p)) ''MAX_USERNAME_LENGTH'' = Some (to_string 32)"
    "map_of (config (RuntimeConfig_init p)) ''MAX_SUBJECT_LENGTH'' = Some (to_string 100)"
    by (simp_all add: RuntimeConfig_init_def set_defaults_find definitions_valid)
       (simp_all add: initializeDefinitions_def um_of_def int_def_def const_defs)
  then show "length_limit ''MAX_USERNAME_LENGTH'' MAX_USERNAME_LENGTH (RuntimeConfig_init p) = 32"
    "length_limit ''MAX_SUBJECT_LENGTH'' MAX_SUBJECT_LENGTH (RuntimeConfig_init p) = 100"
    by (simp_all add: length_limit_def getInt_def stoi_to_string INT_MIN_def INT_MAX_def)
qed

lemma example_valid:
  "isValidUsername u (example_server cs) \<longleftrightarrow> u \<noteq> [] \<and> length u \<le> 32 \<and> list_all username_char u"
  "isValidSubject x (example_server cs) \<longleftrightarrow> x \<noteq> [] \<and> length x \<le> 100"
proof -
  have "config (example_server cs) = config (RuntimeConfig_init idle_process)"
    by (simp add: example_server_def Server_new_def process.defs)
  note c = validity_cong[OF this]
  show "isValidUsername u (example_server cs) \<longleftrightarrow> u \<noteq> [] \<and> length u \<le> 32 \<and> list_all username_char u"
    "isValidSubject x (example_server cs) \<longleftrightarrow> x \<noteq> [] \<and> length x \<le> 100"
    unfolding c unfolding isValidUsername_iff isValidSubject_iff example_limits by (auto simp: list_all_iff)
qed



text \<open>C9: SEND to one user. A message is put in the queue, once and at its end, exactly when the
  line has its four fields, the sender is registered, subject and body are valid, the
  recipient is online and the queue has room; it then carries the registered name of the
  sender, whatever the line says, and the sanitized fields. The sender gets one frame, which
  is OK exactly in that case, and nothing else changes in the registry or the queue.\<close>

theorem send_direct_spec:
  assumes "dispatching s" and "takes_all s fd" and "0 \<le> fd"
    and "sanitize (a ! 1) \<noteq> ''all''" and "s' = handleSendMessage a fd s"
  shows "pending s' = pending s @
      (if send_accepted a fd s \<and> 0 < getUserSocket (sanitize (a ! 1)) s \<and> length (pending s) < 10000
       then [the_message a fd s] else []) \<and>
    (\<forall>k. sent_to k s' = sent_to k s @ (if k = fd then encodeMessage (send_reply a fd s) else [])) \<and>
    (send_reply a fd s = build ''OK'' [''Message sent''] \<longleftrightarrow> pending s' = pending s @ [the_message a fd s]) \<and>
    clients s' = clients s"
proof -
  have room: "has_room s \<longleftrightarrow> length (pending s) < 10000"
    using assms(1) by (simp add: dispatching_def has_room_iff)
  have q: "pending s' = pending s @
      (if send_accepted a fd s \<and> 0 < getUserSocket (sanitize (a ! 1)) s \<and> length (pending s) < 10000
       then [the_message a fd s] else [])"
    unfolding assms(5) pending_handleSend(1)[OF assms(1)]
    using assms(4) pending_bound[OF assms(1)] by (auto simp: take_Cons')
  moreover have "send_reply a fd s = build ''OK'' [''Message sent''] \<longleftrightarrow>
      send_accepted a fd s \<and> 0 < getUserSocket (sanitize (a ! 1)) s \<and> length (pending s) < 10000"
    using assms(4) by (auto simp: send_reply_def send_accepted_def build_def room not_le)
  ultimately show ?thesis
    unfolding assms(5) using sent_to_handleSend[OF assms(2,3,1)] by auto
qed

theorem send_direct_spec_witness:
  "let s = example_server [(''al'', online 4), (''bob'', online 7)]
   in pending (handleSendMessage [''SEND'', ''bob'', ''hi'', ''text''] 4 s) =
        [\<lparr>msg_from = ''al'', msg_to = ''bob'', subject = ''hi'', body = ''text'', timestamp = 0\<rparr>]"
proof -
  let ?s = "example_server [(''al'', online 4), (''bob'', online 7)]"
  have s: "sanitize ''bob'' = ''bob''" "sanitize ''hi'' = ''hi''" "sanitize ''text'' = ''text''" by code_simp+
  have "send_accepted [''SEND'', ''bob'', ''hi'', ''text''] 4 ?s"
    by (simp add: send_accepted_def getUsernameBySocket_def s example_valid)
  with send_direct_spec[of ?s 4 "[''SEND'', ''bob'', ''hi'', ''text'']", OF _ _ _ _ refl]
  show ?thesis
    by (simp add: s the_message_def getUsernameBySocket_def getUserSocket_def Let_def)
qed

text \<open>C10: SEND to \<open>all\<close>. An accepted broadcast puts one copy in the queue for each registered user
  other than the sender, and none for anyone else, when there is room for all of them; the
  copies differ in the recipient only.\<close>

theorem send_broadcast_spec:
  assumes "dispatching s" and "um_valid (clients s)" and "send_accepted a fd s"
    and "sanitize (a ! 1) = ''all''" and "length (pending s) + length (clients s) \<le> 10000"
  shows "\<exists>copies. pending (handleSendMessage a fd s) = pending s @ copies \<and>
    distinct (map msg_to copies) \<and>
    set (map msg_to copies) = fst ` set (clients s) - {getUsernameBySocket fd s} \<and>
    (\<forall>m\<in>set copies. m\<lparr>msg_to := ''all''\<rparr> = the_message a fd s)"
proof (intro exI conjI)
  let ?c = "recipients_of (the_message a fd s) (getAllClients s)"
  have len: "length ?c \<le> 10000 - length (pending s)"
    using recipients_names(3)[OF assms(2), of "the_message a fd s"] assms(5) by linarith
  show "pending (handleSendMessage a fd s) = pending s @ ?c"
    using assms(3,4) len by (simp add: pending_handleSend[OF assms(1)])
  show "distinct (map msg_to ?c)" by (rule recipients_names(1)[OF assms(2)])
  show "set (map msg_to ?c) = fst ` set (clients s) - {getUsernameBySocket fd s}"
    unfolding recipients_names(2)[OF assms(2)] by (simp add: the_message_def)
  show "\<forall>m\<in>set ?c. m\<lparr>msg_to := ''all''\<rparr> = the_message a fd s"
    using assms(4) by (auto simp: recipients_of_def the_message_def)
qed

theorem send_broadcast_spec_witness:
  "let s = example_server [(''al'', online 4), (''bob'', online 7), (''eve'', online 9)]
   in \<exists>copies. pending (handleSendMessage [''SEND'', ''all'', ''hi'', ''text''] 4 s) = copies \<and>
        set (map msg_to copies) = {''bob'', ''eve''}"
proof -
  let ?s = "example_server [(''al'', online 4), (''bob'', online 7), (''eve'', online 9)]"
  have s: "sanitize ''all'' = ''all''" "sanitize ''hi'' = ''hi''" by code_simp+
  have "send_accepted [''SEND'', ''all'', ''hi'', ''text''] 4 ?s"
    by (simp add: send_accepted_def getUsernameBySocket_def s example_valid)
  moreover have "um_valid (clients ?s)" "getUsernameBySocket 4 ?s = ''al''"
    by (simp_all add: um_valid_def getUsernameBySocket_def)
  ultimately show ?thesis
    using send_broadcast_spec[of ?s "[''SEND'', ''all'', ''hi'', ''text'']" 4] by (auto simp: s)
qed

text \<open>A broadcast into a full queue reaches nobody, and the sender is told it was sent: the
  result of \<open>queueMessage\<close> is not looked at in the broadcast loop.\<close>

theorem broadcast_full_queue:
  assumes "dispatching s" and "length (pending s) = 10000" and "send_accepted a fd s"
    and "sanitize (a ! 1) = ''all''" and "takes_all s fd" and "0 \<le> fd"
  shows "pending (handleSendMessage a fd s) = pending s \<and>
    sent_to fd (handleSendMessage a fd s) = sent_to fd s @ encodeMessage (build ''OK'' [''Broadcast sent''])"
  using assms pending_handleSend(1)[OF assms(1)] sent_to_handleSend[OF assms(5,6,1)]
  by (simp add: send_reply_def send_accepted_def)

theorem broadcast_full_queue_witness:
  "let m = \<lparr>msg_from = ''x'', msg_to = ''bob'', subject = ''s'', body = ''b'', timestamp = 0\<rparr>;
       s = (example_server [(''al'', online 4), (''bob'', online 7)])\<lparr>dispatcher :=
             Some ((fst (Dispatcher_new idle_process))\<lparr>messages := replicate 10000 m\<rparr>)\<rparr>
   in pending (handleSendMessage [''SEND'', ''all'', ''hi'', ''text''] 4 s) = replicate 10000 m"
proof -
  let ?m = "\<lparr>msg_from = ''x'', msg_to = ''bob'', subject = ''s'', body = ''b'', timestamp = 0\<rparr>"
  let ?e = "example_server [(''al'', online 4), (''bob'', online 7)]"
  let ?s = "?e\<lparr>dispatcher := Some ((fst (Dispatcher_new idle_process))\<lparr>messages := replicate 10000 ?m\<rparr>)\<rparr>"
  have s: "sanitize ''all'' = ''all''" "sanitize ''hi'' = ''hi''" by code_simp+
  have p: "pending ?s = replicate 10000 ?m" by (simp add: pending_def)
  have "dispatching ?s" by (simp add: dispatching_def queue_ok_def dispatcher_ok_def Dispatcher_new_def)
  moreover have "takes_all ?s 4" by (subst takes_all_cong[of ?s ?e]) simp_all
  moreover have "send_accepted [''SEND'', ''all'', ''hi'', ''text''] 4 ?s"
    using validity_cong(2)[of ?s ?e "''hi''"]
    by (simp add: send_accepted_def getUsernameBySocket_def s example_valid)
  ultimately show ?thesis
    using broadcast_full_queue[of ?s "[''SEND'', ''all'', ''hi'', ''text'']" 4]
    unfolding Let_def p by (simp add: s)
qed



text \<open>GET_LOG sends the last 50 lines of the log file (all of them when there are fewer), each
  ended by a newline, in one frame to the client that asked; with no file it sends an error.\<close>

theorem get_log_spec:
  assumes "takes_all s fd" and "0 \<le> fd" and "\<forall>l\<in>set ls. NL \<notin> set l" and "ls \<noteq> []"
  shows "(files s DEFAULT_SERVER_LOG = Some (concat (map (\<lambda>l. l @ [NL]) ls)) \<longrightarrow>
      sent_to k (handleGetLog fd s) = sent_to k s @ (if k = fd then
        encodeMessage (build ''LOG'' [concat (map (\<lambda>l. l @ [NL]) (drop (length ls - 50) ls))]) else [])) \<and>
    (files s DEFAULT_SERVER_LOG = None \<longrightarrow>
      sent_to k (handleGetLog fd s) = sent_to k s @ (if k = fd then
        encodeMessage (build ''ERROR'' [''Log file not available'']) else []))"
  using assms
  by (auto simp: handleGetLog_def getlines_concat Let_def sent_to_response sendError_def)

theorem get_log_spec_witness:
  "sent_to 4 (handleGetLog 4 ((example_server [])\<lparr>files := [DEFAULT_SERVER_LOG \<mapsto> ''one'' @ [NL]]\<rparr>)) =
     encodeMessage (build ''LOG'' [''one'' @ [NL]])"
proof -
  let ?s = "(example_server [])\<lparr>files := [DEFAULT_SERVER_LOG \<mapsto> ''one'' @ [NL]]\<rparr>"
  have "takes_all ?s 4" by (subst takes_all_cong[of ?s "example_server []"]) simp_all
  then show ?thesis
    using get_log_spec[of ?s 4 "[''one'']" 4] by (simp add: sent_to_def)
qed

text \<open>No name is reserved: a user can register as \<open>SERVER\<close>, the sender of the console's announcements,
  and \<open>all\<close> is a valid name although messages to it go to everybody else.\<close>

theorem no_reserved_names:
  assumes "6 \<le> unat (length_limit ''MAX_USERNAME_LENGTH'' MAX_USERNAME_LENGTH s)"
    and "''SERVER'' \<notin> set (bannedUsers s)" and "map_of (clients s) ''SERVER'' = None"
  shows "getUserSocket ''SERVER'' (handleConnect [''CONNECT'', ''SERVER''] k s) = k \<and> isValidUsername ''all'' s"
proof -
  have "sanitize ''SERVER'' = ''SERVER''" by code_simp
  moreover have "isValidUsername ''SERVER'' s" and all: "isValidUsername ''all'' s"
    using assms(1) by (simp_all add: isValidUsername_iff username_char_def isalnum_def isalpha_def)
  ultimately have "clients (handleConnect [''CONNECT'', ''SERVER''] k s) =
      um_put ''SERVER'' \<lparr>socket = k, lastPong = steadyClock s, waitingForPong = False\<rparr> (clients s)"
    using assms(2,3) by (simp add: clients_handleConnect connect_ok_def)
  with all show ?thesis by (simp add: getUserSocket_def)
qed

theorem no_reserved_names_witness:
  "getUserSocket ''SERVER'' (handleConnect [''CONNECT'', ''SERVER''] 5 (example_server [])) = 5"
proof -
  have "config (example_server []) = config (RuntimeConfig_init idle_process)"
    by (simp add: example_server_def Server_new_def process.defs)
  then have "length_limit k d (example_server []) = length_limit k d (RuntimeConfig_init idle_process)" for k d
    by (simp add: length_limit_def getInt_def)
  then show ?thesis using no_reserved_names[of "example_server []" 5] by (simp add: example_limits)
qed

end
