(* ===== verification/Server_Loop.thy ===== *)
theory Server_Loop
  imports Command_Handler
begin

text \<open>
  The threads of the server: \<open>src/Server/Server.cpp\<close>. Each loop is modelled by one pass of
  its body on the server state; the loop that reads the messages of one client is also
  defined as a whole, with the proof that it ends.
\<close>

section \<open>Commands\<close>

definition initializeCommands :: "server \<Rightarrow> server" where
  "initializeCommands s = LOG_INFO ''Commands initialized''
     (s\<lparr>commands := um_of
        [(''CONNECT'', CmdConnect), (''DISCONNECT'', CmdDisconnect), (''SEND'', CmdSend),
         (''PING'', CmdPing), (''PONG'', CmdPong), (''LIST_USERS'', CmdListUsers),
         (''GET_LOG'', CmdGetLog)]\<rparr>)"

definition run_command :: "ClientCommand \<Rightarrow> string list \<Rightarrow> fd \<Rightarrow> server \<Rightarrow> server" where
  "run_command c parsedData sock s =
     (case c of
        CmdConnect \<Rightarrow> handleConnect parsedData sock s
      | CmdDisconnect \<Rightarrow> handleDisconnect sock s
      | CmdSend \<Rightarrow> handleSendMessage parsedData sock s
      | CmdPing \<Rightarrow> handlePing sock s
      | CmdPong \<Rightarrow> handlePong sock s
      | CmdListUsers \<Rightarrow> handleListUsers sock s
      | CmdGetLog \<Rightarrow> handleGetLog sock s)"

definition executeCommand :: "string \<Rightarrow> string list \<Rightarrow> fd \<Rightarrow> server \<Rightarrow> server" where
  "executeCommand commandName args sock s =
     (case map_of (commands s) commandName of
        Some c \<Rightarrow> run_command c (commandName # args) sock s
      | None \<Rightarrow> snd (send_on sock (build ''ERROR'' [''Unknown command: '' @ commandName])
                  (LOG_WARNING (''Unknown command: '' @ commandName) s)))"

section \<open>Start\<close>

definition htons :: "16 word \<Rightarrow> 16 word" where
  "htons w = or (push_bit 8 w) (drop_bit 8 w)"

definition initializeConfig :: "int \<Rightarrow> server \<Rightarrow> server" where
  "initializeConfig PORT s =
     s\<lparr>sconfig := (sconfig s)\<lparr>port := PORT, sin_port := htons (word_of_int PORT)\<rparr>\<rparr>"

definition createServerThreads :: "server \<Rightarrow> server" where
  "createServerThreads s =
     LOG_INFO ''Admin thread launched - Type /help to see commands''
       (LOG_INFO ''Heartbeat thread launched'' s)"

text \<open>The first half of \<open>start\<close>, up to \<open>listen\<close>: the listening socket, or \<open>None\<close> after an error.\<close>

definition prepare_start :: "int \<Rightarrow> int \<Rightarrow> server \<Rightarrow> server" where
  "prepare_start PORT MAX_CONNECTIONS s =
     (let s1 = initializeConfig PORT (LOG_INFO (''Starting server on port '' @ to_string PORT) (s\<lparr>status := STARTING\<rparr>))
      in s1\<lparr>sconfig := (sconfig s1)\<lparr>
               max_connections := (if MAX_CONNECTIONS > 0 then MAX_CONNECTIONS else 100),
               listenSocket := newSocket s1\<rparr>\<rparr>)"

text \<open>After a successful \<open>socket\<close>: the descriptor is open, \<open>setsockopt\<close> is called on it.\<close>

definition configure_socket :: "server \<Rightarrow> server" where
  "configure_socket s =
     (let s1 = s\<lparr>fdOpen := (fdOpen s)(listenSocket (sconfig s) := True)\<rparr>
      in if setsockoptOk s1 then s1 else LOG_WARNING ''Failed to configure SO_REUSEADDR'' s1)"

definition open_listener :: "int \<Rightarrow> int \<Rightarrow> server \<Rightarrow> unit option \<times> server" where
  "open_listener PORT MAX_CONNECTIONS s =
     (let s3 = prepare_start PORT MAX_CONNECTIONS s
      in if listenSocket (sconfig s3) < 0 then
        (None, (LOG_ERROR ''Failed to create socket'' s3)\<lparr>status := OFF\<rparr>)
      else let s5 = configure_socket s3
      in if \<not> bindOk s5 then
        (None, (os_close (listenSocket (sconfig s5))
               (LOG_ERROR (''Failed to bind on port '' @ to_string PORT) s5))\<lparr>status := OFF\<rparr>)
      else if \<not> listenOk s5 then
        (None, (os_close (listenSocket (sconfig s5)) (LOG_ERROR ''Failed to listen'' s5))\<lparr>status := OFF\<rparr>)
      else (Some (), s5))"

text \<open>The second half: the dispatcher, the pool, the commands, the ban list, the threads.\<close>

definition start_services :: "server \<Rightarrow> server" where
  "start_services s =
     (let (d, s1) = Dispatcher_new s;
        s2 = loadBanlist (initializeCommands (s1\<lparr>dispatcher := Some d, threadPool := Some []\<rparr>));
        s3 = s2\<lparr>startTime := steadyClock s2, status := RUNNING\<rparr>
      in createServerThreads (LOG_INFO ''Server started successfully'' s3))"

definition Server_start :: "int \<Rightarrow> int \<Rightarrow> server \<Rightarrow> int \<times> server" where
  "Server_start PORT MAX_CONNECTIONS s =
     (if status s \<noteq> OFF then (-1, LOG_ERROR ''Server is already started'' s)
      else case open_listener PORT MAX_CONNECTIONS s of
        (None, s1) \<Rightarrow> (-1, s1)
      | (Some _, s1) \<Rightarrow> (0, start_services s1))"

section \<open>Accepting clients\<close>

text \<open>\<open>None\<close>: the loop is left, or it waits in \<open>accept\<close>.\<close>

definition accept_pass :: "server \<Rightarrow> server option" where
  "accept_pass s =
     (if status s \<noteq> RUNNING then None
      else case incoming s of
        [] \<Rightarrow> None
      | clientSocket # rest \<Rightarrow>
          (let s1 = s\<lparr>incoming := rest\<rparr>
           in if clientSocket < 0 then
                Some (if status s1 = RUNNING then LOG_ERROR ''Failed to accept a client'' s1 else s1)
              else let s2 = LOG_INFO (''New connection accepted (socket: '' @ to_string clientSocket @ '')'')
                              (s1\<lparr>fdOpen := (fdOpen s1)(clientSocket := True)\<rparr>)
                   in case threadPool s2 of
                        Some tasks \<Rightarrow> Some (s2\<lparr>threadPool := Some (tasks @ [clientSocket])\<rparr>)
                      | None \<Rightarrow> Some (os_close clientSocket (LOG_ERROR ''ThreadPool not initialized'' s2))))"

section \<open>Reading the messages of a client\<close>

text \<open>One pass of the loop of \<open>handleClientMessages\<close>; no stream object: the loop is left.\<close>

definition client_pass :: "fd \<Rightarrow> netstream \<Rightarrow> server \<Rightarrow> netstream option \<times> server" where
  "client_pass clientSocket stream s =
     (if status s = RUNNING \<and> connected stream then
        (case ns_receive stream s of
           (None, stream1, s1) \<Rightarrow>
             (let username = getUsernameBySocket clientSocket s1
              in (None, if username \<noteq> [] then handleDisconnect clientSocket s1 else s1))
         | (Some raw, stream1, s1) \<Rightarrow>
             (let parsed = parse raw
              in (Some stream1,
                  if isValid parsed then executeCommand (command parsed) (arguments parsed) clientSocket s1
                  else s1)))
      else (None, s))"

lemma handlers_rx [simp, frame]:
  "rx (handlePing k s) = rx s" "rx (handlePong k s) = rx s" "rx (handleListUsers k s) = rx s"
  "rx (handleGetLog k s) = rx s" "status (handlePing k s) = status s" "status (handlePong k s) = status s"
  "status (handleListUsers k s) = status s" "status (handleGetLog k s) = status s"
  "exited (handlePing k s) = exited s" "exited (handlePong k s) = exited s"
  "exited (handleListUsers k s) = exited s" "exited (handleGetLog k s) = exited s"
  "commands (handlePing k s) = commands s" "commands (handlePong k s) = commands s"
  "commands (handleListUsers k s) = commands s" "commands (handleGetLog k s) = commands s"
  by (simp_all add: handlePing_def handlePong_def pong_commit_def handleListUsers_def handleGetLog_def Let_def
      split: option.split)

lemma executeCommand_frame [simp, frame]:
  "rx (executeCommand c a k s) = rx s" "status (executeCommand c a k s) = status s"
  "exited (executeCommand c a k s) = exited s" "commands (executeCommand c a k s) = commands s"
  by (simp_all add: executeCommand_def run_command_def split: option.split ClientCommand.split)

lemma ns_receive_shrinks:
  assumes "ns_receive ns s = (Some raw, ns', s')"
  shows "ns' = ns" "s' = s\<lparr>rx := (rx s)(socketFd ns := drop (length raw + 4) (rx s (socketFd ns)))\<rparr>"
    "length (rx s' (socketFd ns)) < length (rx s (socketFd ns))" "sendable raw"
proof -
  obtain ok m p' where d: "decodeMessage (socketFd ns) s = (ok, m, p')" by (metis prod_cases3)
  with assms have ok: "ok" "m = raw" "p' = s'" "ns' = ns"
    by (auto simp: ns_receive_def split: if_splits)
  then have "fdOpen s (socketFd ns)"
    using d decodeMessage_closed[of s "socketFd ns"] by auto
  from decodeMessage_open[OF this d] ok obtain rest where
    r: "decode_bytes (rx s (socketFd ns)) = Some (raw, rest)" "s' = s\<lparr>rx := (rx s)(socketFd ns := rest)\<rparr>"
    by (auto split: option.splits)
  have rest: "rest = drop (length raw + 4) (rx s (socketFd ns))"
    using r(1) by (auto simp: decode_bytes_def Let_def min_def split: if_splits)
  note len = decode_bytes_bounds[OF r(1)]
  show "ns' = ns" by (rule ok(4))
  show "s' = s\<lparr>rx := (rx s)(socketFd ns := drop (length raw + 4) (rx s (socketFd ns)))\<rparr>"
    unfolding r(2) rest by (rule refl)
  show "length (rx s' (socketFd ns)) < length (rx s (socketFd ns))"
    unfolding r(2) using len by simp
  show "sendable raw" using len by simp
qed

lemma ns_receive_None:
  assumes "ns_receive ns s = (None, ns', s')"
  shows "s' = s\<lparr>rx := rx s'\<rparr>"
proof -
  obtain ok m p' where d: "decodeMessage (socketFd ns) s = (ok, m, p')" by (metis prod_cases3)
  then have "p' = s\<lparr>rx := rx p'\<rparr>"
    by (auto simp: decodeMessage_def os_recv_def Let_def split: if_splits)
  with assms d show ?thesis by (auto simp: ns_receive_def split: if_splits)
qed

lemma ns_receive_rx:
  assumes "ns_receive ns s = (r, ns', s')"
  obtains q where "s' = s\<lparr>rx := q\<rparr>"
  using assms ns_receive_None ns_receive_shrinks(2) that by (cases r) blast+

lemma client_pass_progress:
  assumes "client_pass k ns s = (Some ns', s')"
  shows "ns' = ns" "length (rx s' (socketFd ns)) < length (rx s (socketFd ns))"
proof -
  obtain r ns1 s1 where recv: "ns_receive ns s = (r, ns1, s1)" by (metis prod_cases3)
  with assms obtain raw where "r = Some raw" "ns' = ns1"
    "s' = (if isValid (parse raw) then executeCommand (command (parse raw)) (arguments (parse raw)) k s1 else s1)"
    by (auto simp: client_pass_def Let_def split: if_splits option.splits)
  with ns_receive_shrinks[of ns s raw ns1 s1] recv
  show "ns' = ns" "length (rx s' (socketFd ns)) < length (rx s (socketFd ns))" by auto
qed

text \<open>The whole loop: every pass takes at least a frame header off the socket.\<close>

function client_loop :: "fd \<Rightarrow> netstream \<Rightarrow> server \<Rightarrow> server" where
  "client_loop k ns s =
     (case client_pass k ns s of
        (None, s1) \<Rightarrow> s1
      | (Some ns1, s1) \<Rightarrow> client_loop k ns1 s1)"
  by pat_completeness auto
termination
  by (relation "measure (\<lambda>(k, ns, s). length (rx s (socketFd ns)))")
     (auto dest!: sym[of "(_, _)"] dest: client_pass_progress)

declare client_loop.simps [simp del]

definition handleClientMessages :: "fd \<Rightarrow> server \<Rightarrow> server" where
  "handleClientMessages clientSocket s = client_loop clientSocket (NetworkStream clientSocket) s"

section \<open>Heartbeat\<close>

definition ping_clients :: "server \<Rightarrow> server" where
  "ping_clients s =
     (let s1 = fold (\<lambda>(username, info) s. LOG_DEBUG (''PING sent to '' @ username)
                        (snd (send_on (socket info) (''PING'' @ [NL]) s))) (clients s) s
      in s1\<lparr>clients := map (\<lambda>(username, info). (username, info\<lparr>waitingForPong := True\<rparr>)) (clients s)\<rparr>)"

definition elapsed_s :: "int \<Rightarrow> ClientInfo \<Rightarrow> int" where
  "elapsed_s now info = tdiv (now - lastPong info) 1000000000"

text \<open>
  The two halves of \<open>checkClientTimeouts\<close>: the late clients are collected under the lock, then
  dropped one by one without it.
\<close>

definition timeout_text :: "string \<Rightarrow> int \<Rightarrow> string" where
  "timeout_text username elapsed =
     ''Client timeout: '' @ username @ '' (no response for '' @ to_string elapsed @ ''s)''"

definition scan_timeouts :: "server \<Rightarrow> string list \<times> server" where
  "scan_timeouts s =
     (let now = steadyClock s;
          late = filter (\<lambda>(username, info). elapsed_s now info > HEARTBEAT_TIMEOUT_S) (clients s);
          s1 = fold (\<lambda>(username, info). LOG_WARNING (timeout_text username (elapsed_s now info))) late s
      in (map fst late, s1))"

definition drop_client :: "string \<Rightarrow> server \<Rightarrow> server" where
  "drop_client username s =
     (let sock = getUserSocket username s in if sock > 0 then handleDisconnect sock s else s)"

definition checkClientTimeouts :: "server \<Rightarrow> server" where
  "checkClientTimeouts s = (let (timedOutClients, s1) = scan_timeouts s in fold drop_client timedOutClients s1)"

definition heartbeat_pass :: "server \<Rightarrow> server option" where
  "heartbeat_pass s =
     (if status s \<noteq> RUNNING then None
      else let s1 = ping_clients (sleep_ns (HEARTBEAT_INTERVAL_S * 1000000000) s)
           in Some (checkClientTimeouts (sleep_ns (HEARTBEAT_CHECK_DELAY_S * 1000000000) s1)))"

section \<open>Who is timed out\<close>

text \<open>Each client has its own socket, a positive descriptor.\<close>

definition sockets_ok :: "(string, ClientInfo) umap \<Rightarrow> bool" where
  "sockets_ok cs \<longleftrightarrow> um_valid cs \<and> distinct (map (\<lambda>e. socket (snd e)) cs) \<and>
     (\<forall>e\<in>set cs. fst e \<noteq> [] \<and> 0 < socket (snd e))"

lemma um_erase_filter: "um_erase u m = filter (\<lambda>e. fst e \<noteq> u) m"
  by (induction m) (auto simp: um_erase_def)

lemma sockets_ok_filter: "sockets_ok cs \<Longrightarrow> sockets_ok (filter P cs)"
  by (auto simp: sockets_ok_def um_valid_def distinct_map intro: inj_on_subset)

lemma username_of_socket:
  assumes "sockets_ok (clients s)" and "map_of (clients s) u = Some i"
  shows "getUsernameBySocket (socket i) s = u"
proof -
  have mem: "(u, i) \<in> set (clients s)" using assms(2) by (rule map_of_SomeD)
  then obtain e where e: "find (\<lambda>(v, j). socket j = socket i) (clients s) = Some e"
    by (cases "find (\<lambda>(v, j). socket j = socket i) (clients s)") (auto simp: find_None_iff)
  from find_SomeD[OF this] have "e \<in> set (clients s)" "socket (snd e) = socket (snd (u, i))" by auto
  with assms(1) mem have "e = (u, i)" by (auto simp: sockets_ok_def distinct_map inj_on_def)
  with e show ?thesis by (simp add: getUsernameBySocket_def)
qed

lemma clients_drop:
  assumes "sockets_ok (clients s)"
  shows "clients (drop_client u s) = um_erase u (clients s)"
proof (cases "map_of (clients s) u")
  case None
  then show ?thesis by (simp add: drop_client_def getUserSocket_def um_erase_absent)
next
  case (Some i)
  then have "(u, i) \<in> set (clients s)" by (rule map_of_SomeD)
  with assms have "u \<noteq> []" "0 < socket i" by (auto simp: sockets_ok_def)
  with Some username_of_socket[OF assms Some] show ?thesis
    by (simp add: drop_client_def getUserSocket_def clients_handleDisconnect)
qed

lemma clients_drop_all: "sockets_ok (clients s) \<Longrightarrow>
    clients (fold drop_client us s) = filter (\<lambda>e. fst e \<notin> set us) (clients s)"
proof (induction us arbitrary: s)
  case (Cons u us)
  have c: "clients (drop_client u s) = filter (\<lambda>x. fst x \<noteq> u) (clients s)"
    using Cons.prems by (simp add: clients_drop um_erase_filter)
  with Cons.prems have "sockets_ok (clients (drop_client u s))" by (simp add: sockets_ok_filter)
  from Cons.IH[OF this] c show ?case by (auto intro: filter_cong)
qed simp

lemma clients_log_fold: "clients (fold (\<lambda>x. logger_log (l x) (m x)) xs s) = clients (s :: server)"
  by (induction xs arbitrary: s) simp_all

lemma scan_timeouts_fields:
  "clients (snd (scan_timeouts s)) = clients s" "dispatcher (snd (scan_timeouts s)) = dispatcher s"
  unfolding scan_timeouts_def Let_def snd_conv by (rule fold_keeps, simp add: case_prod_beta)+

lemma clients_timeouts:
  assumes "sockets_ok (clients s)"
  shows "clients (checkClientTimeouts s) = filter (\<lambda>(u, i). elapsed_s (steadyClock s) i \<le> 90) (clients s)"
proof -
  let ?late = "filter (\<lambda>(u, i). elapsed_s (steadyClock s) i > 90) (clients s)"
  obtain us s1 where scan: "scan_timeouts s = (us, s1)" by force
  then have us: "us = map fst ?late" and c1: "clients s1 = clients s"
    using scan_timeouts_fields[of s] by (simp_all add: scan_timeouts_def HEARTBEAT_TIMEOUT_S_def Let_def)
  have "clients (checkClientTimeouts s) = filter (\<lambda>e. fst e \<notin> fst ` set ?late) (clients s)"
    using clients_drop_all[of s1 us] assms c1 scan by (simp add: checkClientTimeouts_def us)
  also have "\<dots> = filter (\<lambda>(u, i). elapsed_s (steadyClock s) i \<le> 90) (clients s)"
  proof (rule filter_cong[OF refl])
    fix e assume "e \<in> set (clients s)"
    with assms have "fst e \<in> fst ` set ?late \<longleftrightarrow> e \<in> set ?late"
      by (auto simp: sockets_ok_def um_valid_def distinct_map inj_on_def)
    with \<open>e \<in> set (clients s)\<close> show "fst e \<notin> fst ` set ?late \<longleftrightarrow> (case e of (u, i) \<Rightarrow> elapsed_s (steadyClock s) i \<le> 90)"
      by (auto split: prod.splits)
  qed
  finally show ?thesis .
qed

lemma dispatcher_timeouts: "dispatcher (checkClientTimeouts s) = dispatcher s"
proof -
  have "dispatcher (fold drop_client us t) = dispatcher t" for us t
    by (rule fold_keeps) (simp add: drop_client_def Let_def)
  then show ?thesis using scan_timeouts_fields(2)[of s] by (simp add: checkClientTimeouts_def case_prod_beta)
qed

lemma elapsed_bound: "0 \<le> now - lastPong i \<Longrightarrow> now - lastPong i < 91 * 1000000000 \<Longrightarrow> elapsed_s now i \<le> 90"
  by (simp add: elapsed_s_def tdiv_nonneg)

text \<open>Storing a new record for a present client under the same socket.\<close>

lemma sockets_update: "map_of cs u = Some i \<Longrightarrow> um_valid cs \<Longrightarrow> socket i' = socket i \<Longrightarrow>
    map (\<lambda>e. (fst e, socket (snd e))) (um_put u i' cs) = map (\<lambda>e. (fst e, socket (snd e))) cs"
  unfolding um_put_def by (induction cs) (auto simp: um_valid_Cons split: if_splits)

lemma sockets_ok_map:
  "map (\<lambda>e. (fst e, socket (snd e))) cs = map (\<lambda>e. (fst e, socket (snd e))) ds \<Longrightarrow> sockets_ok cs = sockets_ok ds"
proof -
  assume m: "map (\<lambda>e. (fst e, socket (snd e))) cs = map (\<lambda>e. (fst e, socket (snd e))) ds"
  have "sockets_ok xs \<longleftrightarrow> distinct (map fst ys) \<and> distinct (map snd ys) \<and> (\<forall>e\<in>set ys. fst e \<noteq> [] \<and> 0 < snd e)"
    if "ys = map (\<lambda>e. (fst e, socket (snd e))) xs" for xs ys
    unfolding that by (simp add: sockets_ok_def um_valid_def comp_def)
  from this[OF refl, of cs] this[OF refl, of ds] m show ?thesis by simp
qed

section \<open>Starting\<close>

lemma loadBanlist_fields:
  "config (loadBanlist t) = config t" "definitions (loadBanlist t) = definitions t"
  "steadyClock (loadBanlist t) = steadyClock t" "clients (loadBanlist t) = clients t"
  "dispatcher (loadBanlist t) = dispatcher t" "threadPool (loadBanlist t) = threadPool t"
  "sconfig (loadBanlist t) = sconfig t" "exited (loadBanlist t) = exited t"
  by (simp_all add: loadBanlist_def Let_def split: option.split)

lemma initializeCommands_fields:
  "config (initializeCommands t) = config t" "definitions (initializeCommands t) = definitions t"
  "steadyClock (initializeCommands t) = steadyClock t" "clients (initializeCommands t) = clients t"
  "dispatcher (initializeCommands t) = dispatcher t" "threadPool (initializeCommands t) = threadPool t"
  "sconfig (initializeCommands t) = sconfig t" "exited (initializeCommands t) = exited t"
  by (simp_all add: initializeCommands_def)

lemma start_services_spec:
  "status (start_services s) = RUNNING" "dispatching (start_services s)" "pending (start_services s) = []"
  "threadPool (start_services s) = Some []" "clients (start_services s) = clients s"
  "config (start_services s) = config s" "definitions (start_services s) = definitions s"
  "sconfig (start_services s) = sconfig s" "startTime (start_services s) = steadyClock s"
proof -
  have "dispatcher (start_services s) = Some (fst (Dispatcher_new s))"
    by (simp add: start_services_def createServerThreads_def Let_def case_prod_beta
        loadBanlist_fields initializeCommands_fields)
  then show "dispatching (start_services s)" "pending (start_services s) = []"
    by (simp_all add: dispatching_def queue_ok_def pending_def Dispatcher_new_def dispatcher_ok_def)
qed (simp_all add: start_services_def createServerThreads_def Let_def case_prod_beta Dispatcher_new_def
    loadBanlist_fields initializeCommands_fields)

lemma prepare_start_fields [simp]:
  "listenSocket (sconfig (prepare_start PORT n s)) = newSocket s" "clients (prepare_start PORT n s) = clients s"
  "config (prepare_start PORT n s) = config s" "definitions (prepare_start PORT n s) = definitions s"
  "steadyClock (prepare_start PORT n s) = steadyClock s" "bindOk (prepare_start PORT n s) = bindOk s"
  "listenOk (prepare_start PORT n s) = listenOk s"
  by (simp_all add: prepare_start_def initializeConfig_def Let_def)

lemma configure_socket_fields [simp]:
  "sconfig (configure_socket s) = sconfig s" "clients (configure_socket s) = clients s"
  "config (configure_socket s) = config s" "definitions (configure_socket s) = definitions s"
  "steadyClock (configure_socket s) = steadyClock s" "bindOk (configure_socket s) = bindOk s"
  "listenOk (configure_socket s) = listenOk s"
  by (simp_all add: configure_socket_def Let_def)

lemma open_listener_spec:
  "fst (open_listener PORT n s) \<noteq> None \<longleftrightarrow> 0 \<le> newSocket s \<and> bindOk s \<and> listenOk s"
  "fst (open_listener PORT n s) = None \<Longrightarrow> status (snd (open_listener PORT n s)) = OFF"
  "fst (open_listener PORT n s) = None \<Longrightarrow> 0 \<le> newSocket s \<Longrightarrow> \<not> fdOpen (snd (open_listener PORT n s)) (newSocket s)"
  "listenSocket (sconfig (snd (open_listener PORT n s))) = newSocket s"
  "clients (snd (open_listener PORT n s)) = clients s" "config (snd (open_listener PORT n s)) = config s"
  "definitions (snd (open_listener PORT n s)) = definitions s" "steadyClock (snd (open_listener PORT n s)) = steadyClock s"
  by (cases "newSocket s < 0"; cases "bindOk s"; cases "listenOk s";
      simp add: open_listener_def Let_def)+

section \<open>The end of a reading loop\<close>

lemma client_loop_end:
  "status s = RUNNING \<Longrightarrow> connected ns \<Longrightarrow> \<exists>t. fst (ns_receive ns t) = None \<and> status t = RUNNING \<and>
     client_loop k ns s = snd (client_pass k ns t)"
proof (induction k ns s rule: client_loop.induct)
  case (1 k ns s)
  show ?case
  proof (cases "client_pass k ns s")
    case (Pair r s1)
    show ?thesis
    proof (cases r)
      case None
      then have "fst (ns_receive ns s) = None"
        using "1.prems" Pair by (auto simp: client_pass_def Let_def split: option.splits prod.splits)
      with None Pair "1.prems" show ?thesis by (intro exI[of _ s]) (simp add: client_loop.simps)
    next
      case (Some ns1)
      with Pair have p: "client_pass k ns s = (Some ns1, s1)" by simp
      obtain raw ns2 s2 where recv: "ns_receive ns s = (Some raw, ns2, s2)"
        and s1: "s1 = (if isValid (parse raw) then executeCommand (command (parse raw)) (arguments (parse raw)) k s2 else s2)"
        using p "1.prems" by (auto simp: client_pass_def Let_def split: option.splits prod.splits)
      have "status s1 = RUNNING" using ns_receive_shrinks(2)[OF recv] s1 "1.prems" by simp
      with "1.IH"[OF p[symmetric] refl] client_pass_progress(1)[OF p] "1.prems" p
      show ?thesis by (simp add: client_loop.simps[of k ns s])
    qed
  qed
qed

section \<open>Properties\<close>

text \<open>C19: The timeout check keeps exactly the clients whose last PONG is at most 90 whole seconds
  old and removes all others, in one call, leaving the kept ones as they are (whether or not
  they still owe a PONG). It needs clients on distinct sockets.\<close>

theorem timeouts_spec:
  assumes "sockets_ok (clients s)"
  shows "clients (checkClientTimeouts s) =
      filter (\<lambda>(u, i). tdiv (steadyClock s - lastPong i) 1000000000 \<le> 90) (clients s) \<and>
    pending (checkClientTimeouts s) = pending s"
proof
  show "clients (checkClientTimeouts s) =
      filter (\<lambda>(u, i). tdiv (steadyClock s - lastPong i) 1000000000 \<le> 90) (clients s)"
    using clients_timeouts[OF assms] by (simp add: elapsed_s_def)
  show "pending (checkClientTimeouts s) = pending s"
    by (rule dispatching_cong(2)[OF dispatcher_timeouts])
qed

theorem timeouts_spec_witness:
  "let s = (example_server [(''al'', online 4), (''bob'', (online 7)\<lparr>lastPong := 50000000000\<rparr>)])\<lparr>steadyClock := 100000000000\<rparr>
   in map fst (clients (checkClientTimeouts s)) = [''bob'']"
proof -
  let ?s = "(example_server [(''al'', online 4), (''bob'', (online 7)\<lparr>lastPong := 50000000000\<rparr>)])\<lparr>steadyClock := 100000000000\<rparr>"
  have "sockets_ok (clients ?s)" by (simp add: sockets_ok_def um_valid_def)
  from timeouts_spec[OF this] show ?thesis by (simp add: tdiv_def)
qed

text \<open>The heartbeat and queue settings of the runtime configuration change nothing: whatever
  \<open>/set\<close> does to the table, the timeout check removes the same clients and the queue takes
  the same messages (the constants of the source are used instead).\<close>

theorem settings_have_no_effect:
  assumes "sockets_ok (clients s)" and "s' = snd (config_set key v s)"
  shows "clients (checkClientTimeouts s') = clients (checkClientTimeouts s) \<and>
    fst (server_queue m s') = fst (server_queue m s) \<and> pending (snd (server_queue m s')) = pending (snd (server_queue m s))"
proof -
  have more: "process.more s' = process.more s" "steadyClock s' = steadyClock s"
    unfolding assms(2) by (simp_all add: config_set_def validateValue_def Let_def split: option.split)
  note f = server_frame[OF more(1)]
  have "clients (checkClientTimeouts s') = clients (checkClientTimeouts s)"
    using clients_timeouts[of s] clients_timeouts[of s'] assms(1) more(2) by (simp add: f)
  moreover have "fst (server_queue m s') = fst (server_queue m s)"
    "dispatcher (snd (server_queue m s')) = dispatcher (snd (server_queue m s))"
    using f(4) by (auto simp: server_queue_def queueMessage_def Let_def split: option.split QueueFullPolicy.split)
  ultimately show ?thesis by (simp add: pending_def)
qed

theorem settings_have_no_effect_witness:
  "let s = (example_server [(''al'', online 4)])\<lparr>steadyClock := 60000000000\<rparr>;
       s' = snd (config_set ''HEARTBEAT_TIMEOUT_S'' ''10'' s)
   in clients (checkClientTimeouts s') = [(''al'', online 4)]"
proof -
  let ?s = "(example_server [(''al'', online 4)])\<lparr>steadyClock := 60000000000\<rparr>"
  have ok: "sockets_ok (clients ?s)" by (simp add: sockets_ok_def um_valid_def)
  have "clients (checkClientTimeouts ?s) = [(''al'', online 4)]"
    unfolding clients_timeouts[OF ok] by (simp add: elapsed_s_def tdiv_def)
  with settings_have_no_effect[OF ok refl] show ?thesis by simp
qed

text \<open>A PONG keeps its client: from the moment it is handled, timeout checks in the next 90
  seconds do not remove that client, however old its previous PONG was.\<close>

theorem pong_keeps_client:
  assumes "sockets_ok (clients s)" and "map_of (clients s) u = Some i"
    and "steadyClock s \<le> now" and "now < steadyClock s + 91000000000"
  shows "map_of (clients (checkClientTimeouts ((handlePong (socket i) s)\<lparr>steadyClock := now\<rparr>))) u =
    Some (i\<lparr>lastPong := steadyClock s, waitingForPong := False\<rparr>)"
proof -
  let ?i = "i\<lparr>lastPong := steadyClock s, waitingForPong := False\<rparr>"
  let ?t = "(handlePong (socket i) s)\<lparr>steadyClock := now\<rparr>"
  have valid: "um_valid (clients s)" using assms(1) by (simp add: sockets_ok_def)
  have "u \<noteq> []" using map_of_SomeD[OF assms(2)] assms(1) by (auto simp: sockets_ok_def)
  then have c: "clients ?t = um_put u ?i (clients s)"
    using username_of_socket[OF assms(1,2)] assms(2)
    by (simp add: handlePong_def pong_commit_def updateClientPong_def Let_def)
  have "sockets_ok (clients ?t)"
    unfolding c using sockets_ok_map[OF sockets_update[OF assms(2) valid, of ?i]] assms(1) by simp
  note t = clients_timeouts[OF this]
  have "elapsed_s now ?i \<le> 90" using assms(3,4) by (intro elapsed_bound) simp_all
  moreover have "(u, ?i) \<in> set (clients ?t)" unfolding c by (rule map_of_SomeD) simp
  ultimately have "(u, ?i) \<in> set (clients (checkClientTimeouts ?t))" unfolding t by simp
  moreover have "um_valid (clients (checkClientTimeouts ?t))"
    using sockets_ok_filter[OF \<open>sockets_ok (clients ?t)\<close>] unfolding t sockets_ok_def by blast
  ultimately show ?thesis by (simp add: um_valid_def)
qed

theorem pong_keeps_client_witness:
  "let s = (example_server [(''al'', online 4)])\<lparr>steadyClock := 200000000000\<rparr>
   in isUsernameTaken ''al'' (checkClientTimeouts ((handlePong 4 s)\<lparr>steadyClock := 290000000000\<rparr>))"
proof -
  let ?s = "(example_server [(''al'', online 4)])\<lparr>steadyClock := 200000000000\<rparr>"
  have ok: "sockets_ok (clients ?s)" by (simp add: sockets_ok_def um_valid_def)
  show ?thesis
    using pong_keeps_client[OF ok, of "''al''" "online 4" 290000000000] by (simp add: isUsernameTaken_def)
qed



text \<open>A connection that is closed by its peer before it has a name leaves an open descriptor
  behind: the server's state is as before, the descriptor still open and known to nobody.\<close>

theorem unnamed_connection_leaks:
  assumes "status s = RUNNING" and "0 \<le> k" and "fdOpen s k" and "rx s k = []"
    and "getUsernameBySocket k s = []"
  shows "handleClientMessages k s = s \<and> fdOpen (handleClientMessages k s) k"
proof -
  have rx: "(rx s)(k := []) = rx s" using assms(4) by (intro ext) simp
  have "ns_receive (NetworkStream k) s = (None, \<lparr>socketFd = k, connected = False\<rparr>, s)"
    using assms(2,3,4) rx
    by (simp add: ns_receive_def NetworkStream_def decodeMessage_def os_recv_def Let_def)
  then have "client_pass k (NetworkStream k) s = (None, s)"
    using assms by (simp add: client_pass_def NetworkStream_def)
  then have "handleClientMessages k s = s"
    by (simp add: handleClientMessages_def client_loop.simps)
  with assms(3) show ?thesis by simp
qed

theorem unnamed_connection_leaks_witness:
  "let s = example_server [(''al'', online 4)] in fdOpen (handleClientMessages 5 s) 5"
proof -
  let ?s = "example_server [(''al'', online 4)]"
  have "rx ?s 5 = []" "fdOpen ?s 5" "getUsernameBySocket 5 ?s = []"
    by (simp_all add: example_server_def Server_new_def RuntimeConfig_init_def idle_process_def process.defs
        getUsernameBySocket_def)
  with unnamed_connection_leaks[of ?s 5] show ?thesis by simp
qed

text \<open>\<open>start\<close> succeeds exactly when the server is off and the socket can be made, bound and
  listened on. It is then running, with an empty queue of 10000 places, no task, the clients
  it had and the seven commands; on any failure it returns -1, is off again and has closed
  the socket it made; a server that is not off is left as it is.\<close>

theorem server_start_spec:
  assumes "Server_start PORT n s = (r, s')"
  shows "(r = 0 \<longleftrightarrow> status s = OFF \<and> 0 \<le> newSocket s \<and> bindOk s \<and> listenOk s) \<and> (r = 0 \<or> r = -1) \<and>
    (r = 0 \<longrightarrow> status s' = RUNNING \<and> dispatching s' \<and> pending s' = [] \<and> threadPool s' = Some [] \<and>
       clients s' = clients s \<and> config s' = config s \<and> definitions s' = definitions s \<and>
       listenSocket (sconfig s') = newSocket s \<and> startTime s' = steadyClock s) \<and>
    (r = -1 \<longrightarrow> status s \<noteq> OFF \<longrightarrow> status s' = status s \<and> clients s' = clients s) \<and>
    (r = -1 \<longrightarrow> status s = OFF \<longrightarrow> status s' = OFF \<and> (0 \<le> newSocket s \<longrightarrow> \<not> fdOpen s' (newSocket s)))"
  using assms open_listener_spec[where PORT = PORT and n = n and s = s]
    start_services_spec[of "snd (open_listener PORT n s)"]
  by (auto simp: Server_start_def split: if_splits prod.splits option.splits)

theorem server_start_spec_witness:
  "let s = (Server_new idle_process)\<lparr>newSocket := 3\<rparr> in fst (Server_start 8080 0 s) = 0 \<and>
     fst (Server_start 8080 0 (s\<lparr>bindOk := False\<rparr>)) = -1"
proof -
  let ?s = "(Server_new idle_process)\<lparr>newSocket := 3\<rparr>"
  have "status ?s = OFF" "bindOk ?s" "listenOk ?s"
    by (simp_all add: Server_new_def process.defs server.defs)
  with server_start_spec[OF surjective_pairing, of 8080 0 ?s]
    server_start_spec[OF surjective_pairing, of 8080 0 "?s\<lparr>bindOk := False\<rparr>"]
  show ?thesis by auto
qed

end
