(* ===== verification/Handler_Parts.thy ===== *)
theory Handler_Parts
  imports Server_Loop
begin

text \<open>
  The handlers of the client commands cut where they let go of a lock and later act on what
  they saw under it (\<open>src/Server/CommandHandler.cpp\<close>): CONNECT between its tests and the
  registration and before its answer, SEND between its tests and the queue, and between the
  copies of a broadcast, DISCONNECT and PONG between the look-up of the name and its use. That the parts
  put together are the pass of the client thread.
\<close>

section \<open>The parts\<close>

text \<open>
  What a handler has still to do: \<open>Registering\<close> a name whose tests are passed, \<open>Answering\<close> a client
  that is registered, \<open>Sending\<close> a message whose tests are passed, \<open>Copying\<close> a broadcast to those
  on the list that was taken of the clients, \<open>Leaving\<close> and \<open>Refreshing\<close> under the name that was
  looked up.
\<close>

datatype handler_part =
    Registering string fd
  | Answering string fd
  | Sending Message fd
  | Copying "Message list" fd
  | Leaving string fd
  | Refreshing string

text \<open>
  The first part of a handler: its tests or its look-up, and what is left when they are passed.
\<close>

definition command_start :: "ClientCommand \<Rightarrow> string list \<Rightarrow> fd \<Rightarrow> server \<Rightarrow> (handler_part \<times> server) option" where
  "command_start cmd parsedData k s =
     (let username = getUsernameBySocket k s
      in case cmd of
           CmdConnect \<Rightarrow>
             (case connect_check parsedData k s of
                (None, s1) \<Rightarrow> None | (Some u, s1) \<Rightarrow> Some (Registering u k, s1))
         | CmdSend \<Rightarrow>
             (case send_check parsedData k s of
                (None, s1) \<Rightarrow> None | (Some m, s1) \<Rightarrow> Some (Sending m k, s1))
         | CmdDisconnect \<Rightarrow> if username = [] then None else Some (Leaving username k, s)
         | CmdPong \<Rightarrow> if username = [] then None else Some (Refreshing username, s)
         | _ \<Rightarrow> None)"

text \<open>A line is read, or the end of the connection, and the first part of its handler is run.\<close>

definition handler_start :: "fd \<Rightarrow> server \<Rightarrow> (handler_part \<times> server) option" where
  "handler_start k s =
     (if status s \<noteq> RUNNING then None
      else case ns_receive (NetworkStream k) s of
        (None, _, s1) \<Rightarrow> command_start CmdDisconnect [] k s1
      | (Some raw, _, s1) \<Rightarrow>
          (if \<not> isValid (parse raw) then None
           else case map_of (commands s1) (command (parse raw)) of
                  None \<Rightarrow> None
                | Some cmd \<Rightarrow> command_start cmd (command (parse raw) # arguments (parse raw)) k s1))"

text \<open>One part, and what is left after it.\<close>

fun handler_next :: "handler_part \<Rightarrow> server \<Rightarrow> handler_part option \<times> server" where
  "handler_next (Registering u k) s = (Some (Answering u k), connect_register u k s)"
| "handler_next (Answering u k) s = (None, connect_answer u k s)"
| "handler_next (Sending m k) s =
     (if msg_to m = ''all''
      then let s1 = LOG_INFO (''Broadcast from '' @ msg_from m) s
           in (Some (Copying (recipients_of m (getAllClients s1)) k), s1)
      else (None, send_commit m k s))"
| "handler_next (Copying (m # ms) k) s = (Some (Copying ms k), snd (server_queue m s))"
| "handler_next (Copying [] k) s = (None, sendOK k ''Broadcast sent'' s)"
| "handler_next (Leaving u k) s = (None, disconnect_commit u k s)"
| "handler_next (Refreshing u) s = (None, pong_commit u s)"

section \<open>The parts put together\<close>

text \<open>The rest of the handler with nobody in between.\<close>

fun part_size :: "handler_part \<Rightarrow> server \<Rightarrow> nat" where
  "part_size (Sending m k) s = length (getAllClients s) + 2"
| "part_size (Copying ms k) s = Suc (length ms)"
| "part_size (Registering u k) s = 1"
| "part_size _ s = 0"

lemma handler_next_smaller: "handler_next p s = (Some q, t) \<Longrightarrow> part_size q t < part_size p s"
proof (induction p s rule: handler_next.induct)
  case (3 m k s)
  have "length (recipients_of m rs) \<le> length rs" for rs by (simp add: recipients_of_def)
  with 3 show ?case by (auto simp: getAllClients_def le_imp_less_Suc Let_def split: if_splits)
qed auto

function handler_finish :: "handler_part \<Rightarrow> server \<Rightarrow> server" where
  "handler_finish p s =
     (case handler_next p s of (None, t) \<Rightarrow> t | (Some q, t) \<Rightarrow> handler_finish q t)"
  by pat_completeness auto

termination
  by (relation "measure (\<lambda>(p, s). part_size p s)") (simp_all add: handler_next_smaller[OF sym])

declare handler_finish.simps [simp del]

lemma finish_copies: "handler_finish (Copying ms k) s = sendOK k ''Broadcast sent'' (fold (\<lambda>m s. snd (server_queue m s)) ms s)"
proof (induction ms arbitrary: s)
  case Nil
  show ?case by (subst handler_finish.simps) simp
next
  case (Cons m ms)
  then show ?case by (subst handler_finish.simps) simp
qed

lemma finish_parts:
  "handler_finish (Registering u k) s = connect_commit u k s"
  "handler_finish (Sending m k) s = send_commit m k s" "handler_finish (Answering u k) s = connect_answer u k s"
  "handler_finish (Leaving u k) s = disconnect_commit u k s"
  "handler_finish (Refreshing u) s = pong_commit u s"
proof -
  show a: "handler_finish (Answering u k) s = connect_answer u k s" for s
    by (subst handler_finish.simps) simp
  show "handler_finish (Registering u k) s = connect_commit u k s"
    by (subst handler_finish.simps) (simp add: a connect_commit_def)
  show "handler_finish (Sending m k) s = send_commit m k s"
  proof (cases "msg_to m = ''all''")
    case True
    then show ?thesis
      by (subst handler_finish.simps) (simp add: finish_copies broadcast_fold send_commit_def Let_def)
  next
    case False
    then show ?thesis by (subst handler_finish.simps) simp
  qed
qed (subst handler_finish.simps, simp)+

text \<open>Where a part comes from.\<close>

lemma command_start_run:
  assumes "command_start cmd a k s = Some (p, t)"
  shows "run_command cmd a k s = handler_finish p t"
proof (cases cmd)
  case CmdConnect
  with assms show ?thesis
    by (cases "connect_check a k s")
       (auto simp: command_start_def run_command_def handleConnect_def finish_parts split: option.splits)
next
  case CmdSend
  with assms show ?thesis
    by (cases "send_check a k s")
       (auto simp: command_start_def run_command_def handleSendMessage_def finish_parts split: option.splits)
qed (use assms in \<open>auto simp: command_start_def run_command_def handleDisconnect_def handlePong_def
    finish_parts Let_def split: if_splits\<close>)

lemma handler_start_cases:
  assumes "handler_start k s = Some (p, t)"
  shows "status s = RUNNING \<and>
    ((\<exists>ns s1. ns_receive (NetworkStream k) s = (None, ns, s1) \<and> command_start CmdDisconnect [] k s1 = Some (p, t)) \<or>
     (\<exists>raw ns s1 cmd. ns_receive (NetworkStream k) s = (Some raw, ns, s1) \<and> isValid (parse raw) \<and>
        map_of (commands s1) (command (parse raw)) = Some cmd \<and>
        command_start cmd (command (parse raw) # arguments (parse raw)) k s1 = Some (p, t)))"
proof -
  obtain r ns s1 where "ns_receive (NetworkStream k) s = (r, ns, s1)" by (metis prod_cases3)
  with assms show ?thesis
    by (cases r) (auto simp: handler_start_def split: if_splits option.splits)
qed

section \<open>Properties\<close>



end
