(* ===== verification/Admin_Handler.thy ===== *)
theory Admin_Handler
  imports Command_Handler "HOL-Library.List_Lexorder" "HOL-Library.Char_ord"
begin

text \<open>
  The administration console: \<open>src/Server/AdminCommandHandler.cpp\<close>. A command gets the
  words of the line, its own name first.
\<close>

section \<open>The command table\<close>

datatype AdminCmd =
  ACmdHelp | ACmdBroadcast | ACmdSend | ACmdList | ACmdKick | ACmdBan | ACmdUnban | ACmdStats
  | ACmdSet | ACmdConfig | ACmdReset | ACmdStop

record AdminCommand =
  cmd_handler :: AdminCmd
  usage :: string
  description :: string
  minArgs :: int

definition reg :: "string \<Rightarrow> AdminCmd \<Rightarrow> string \<Rightarrow> string \<Rightarrow> int \<Rightarrow> string \<times> AdminCommand" where
  "reg name h u d n = (name, \<lparr>cmd_handler = h, usage = u, description = d, minArgs = n\<rparr>)"

text \<open>A \<open>std::map\<close>: the entries in the order of their keys.\<close>

definition admin_commands :: "(string \<times> AdminCommand) list" where
  "admin_commands = sort_key fst
     [reg ''help'' ACmdHelp ''/help'' ''Show this help'' 0,
      reg ''broadcast'' ACmdBroadcast ''/broadcast <message>'' ''Send to all'' 1,
      reg ''send'' ACmdSend ''/send <user> <message>'' ''Send to a user'' 2,
      reg ''list'' ACmdList ''/list'' ''List clients'' 0,
      reg ''kick'' ACmdKick ''/kick <user>'' ''Disconnect a client'' 1,
      reg ''ban'' ACmdBan ''/ban <user>'' ''Ban a client'' 1,
      reg ''unban'' ACmdUnban ''/unban <user>'' ''Unban a client'' 1,
      reg ''stats'' ACmdStats ''/stats'' ''Show statistics'' 0,
      reg ''set'' ACmdSet ''/set <name> <value>'' ''Modify a config'' 2,
      reg ''config'' ACmdConfig ''/config'' ''List configurations'' 0,
      reg ''reset'' ACmdReset ''/reset'' ''Reset configurations'' 0,
      reg ''stop'' ACmdStop ''/stop'' ''Stop the server'' 0]"

section \<open>Commands\<close>

definition cmdHelp :: "server \<Rightarrow> server" where
  "cmdHelp s =
     fold (\<lambda>(name, cmd) s.
            print ('' - '' @ description cmd @ [NL])
              (print_setw 24 (usage cmd) (set_left (print ''  '' s))))
       admin_commands (print (''Available commands:'' @ [NL]) s)"

definition admin_send_all :: "string \<Rightarrow> (string, fd) umap \<Rightarrow> server \<Rightarrow> nat \<times> server" where
  "admin_send_all message recipients s =
     fold (\<lambda>(username, sock) (sent, s).
            (let (ok, s1) = send_on sock
                   (build ''MESSAGE'' [''SERVER'', ''Announcement'', message, ''0'']) s
             in (if ok then sent + 1 else sent, s1)))
       recipients (0, s)"

definition cmdBroadcast :: "string list \<Rightarrow> server \<Rightarrow> server" where
  "cmdBroadcast args s =
     (let message = join '' '' (drop 1 args); recipients = getAllClients s
      in if recipients = [] then print (''[Admin] No clients connected'' @ [NL]) s
         else let (sent, s1) = admin_send_all message recipients s
              in LOG_INFO (''Admin broadcast: '' @ message)
                   (print (''[Admin] Broadcast sent to '' @ to_string (int sent) @ '' client(s)'' @ [NL]) s1))"

definition cmdSend :: "string list \<Rightarrow> server \<Rightarrow> server" where
  "cmdSend args s =
     (let username = args ! 1; message = join '' '' (drop 2 args);
          sock = getUserSocket username s
      in if sock \<le> 0
         then print (''[Admin] User '' @ [SQ] @ username @ [SQ] @ '' not found'' @ [NL]) s
         else let (ok, s1) = send_on sock
                    (build ''MESSAGE'' [''SERVER'', ''Private Message'', message, ''0'']) s
              in if ok then LOG_INFO (''Admin message to '' @ username @ '': '' @ message)
                              (print (''[Admin] Message sent to '' @ username @ [NL]) s1)
                 else print (''[Admin] Failed to send'' @ [NL]) s1)"

definition cmdList :: "server \<Rightarrow> server" where
  "cmdList s =
     (let recipients = getAllClients s
      in if recipients = [] then print (''[Admin] No clients connected'' @ [NL]) s
         else print (''================================'' @ [NL, NL])
                (fold (\<lambda>(username, sock). print (''  - '' @ username @ '' (socket: '' @ to_string sock @ '')'' @ [NL]))
                   recipients
                   (print ([NL] @ ''=== Connected clients ('' @ to_string (int (length recipients))
                        @ '') ==='' @ [NL]) s)))"

definition disconnectUser :: "string \<Rightarrow> string \<Rightarrow> server \<Rightarrow> bool \<times> server" where
  "disconnectUser username reason s =
     (let sock = getUserSocket username s
      in if sock \<le> 0
         then (False, print (''[Admin] User '' @ [SQ] @ username @ [SQ] @ '' not found'' @ [NL]) s)
         else (True, os_close sock (unregisterClient username
                       (snd (send_on sock (build ''ERROR'' [reason]) s)))))"

definition cmdKick :: "string list \<Rightarrow> server \<Rightarrow> server" where
  "cmdKick args s =
     (let username = args ! 1;
          (ok, s1) = disconnectUser username ''You have been disconnected by admin'' s
      in if ok then LOG_INFO (''Admin kicked user: '' @ username)
                      (print (''[Admin] User '' @ [SQ] @ username @ [SQ] @ '' disconnected'' @ [NL]) s1)
         else s1)"

definition cmdBan :: "string list \<Rightarrow> server \<Rightarrow> server" where
  "cmdBan args s =
     (let username = args ! 1;
          (ok, s1) = disconnectUser username ''You have been banned by admin'' s
      in if ok then LOG_INFO (''Admin banned user: '' @ username)
                      (print (''[Admin] User '' @ [SQ] @ username @ [SQ] @ '' banned and disconnected'' @ [NL])
                        (banlistAdd username s1))
         else s1)"

definition cmdUnban :: "string list \<Rightarrow> server \<Rightarrow> server" where
  "cmdUnban args s =
     (let username = args ! 1; (ok, s1) = banlistRemove username s
      in if ok then LOG_INFO (''Admin unbanned user: '' @ username)
                      (print (''[Admin] User '' @ [SQ] @ username @ [SQ] @ '' unbanned'' @ [NL]) s1)
         else print (''[Admin] User '' @ [SQ] @ username @ [SQ] @ '' is not in the banlist'' @ [NL]) s1)"

text \<open>
  \<open>std::fixed << std::setprecision(2)\<close> of \<open>n / d\<close>, rounded to the nearest hundredth. The
  quotient is taken as a rational number where the code has a \<open>double\<close>.
\<close>

definition fixed2 :: "nat \<Rightarrow> nat \<Rightarrow> string" where
  "fixed2 n d =
     (let h = (2 * 100 * n + d) div (2 * d)
      in nat_str (h div 100) @ ''.'' @ nat_str (h mod 100 div 10) @ nat_str (h mod 10))"

definition print_uptime :: "int \<Rightarrow> server \<Rightarrow> server" where
  "print_uptime uptime s =
     (let hours = tdiv uptime 3600; minutes = tdiv (tmod uptime 3600) 60; seconds = tmod uptime 60
      in print [NL] (print_setw 2 (to_string seconds) (print '':'' (print_setw 2 (to_string minutes)
           (print '':'' (print_setw 2 (to_string hours) (set_fill (CHR ''0'') (print ''Uptime:            '' s))))))))"

definition print_online :: "(string, fd) umap \<Rightarrow> server \<Rightarrow> server" where
  "print_online recipients s =
     snd (fold (\<lambda>(username, sock) (i, s). (i + 1, print (''  '' @ to_string i @ ''. '' @ username @ [NL]) s))
            recipients (1, s))"

definition cmdStats :: "server \<Rightarrow> server" where
  "cmdStats s =
     (let recipients = getAllClients s;
          uptime = tdiv (steadyClock s - startTime s) 1000000000;
          avg = (if uptime > 0
                 then fixed2 (60 * unat (totalMessagesReceived s + totalMessagesSent s)) (nat uptime)
                 else fixed2 0 1);
          s1 = print (''Port:              '' @ to_string (port (sconfig s)) @ [NL])
                 (print ([NL] @ ''========== STATISTICS =========='' @ [NL]) s);
          s2 = set_fill (CHR '' '') (print_uptime uptime s1);
          s3 = print (''-----------------------------------'' @ [NL]
                 @ ''Clients:           '' @ to_string (int (length recipients)) @ [NL]
                 @ ''Messages received: '' @ to_string (int (unat (totalMessagesReceived s))) @ [NL]
                 @ ''Messages sent:     '' @ to_string (int (unat (totalMessagesSent s))) @ [NL]
                 @ ''Messages/min:      '' @ avg @ [NL]
                 @ ''==================================='' @ [NL]) s2;
          s4 = (if recipients \<noteq> [] then print_online recipients (print ([NL] @ ''Online clients:'' @ [NL]) s3)
                else s3)
      in print [NL] s4)"

definition cmdSet :: "string list \<Rightarrow> server \<Rightarrow> server" where
  "cmdSet args s =
     (let key = args ! 1; value = args ! 2; (ok, s1) = config_set key value s
      in if ok then print (''[OK] '' @ key @ '' = '' @ value @ [NL]) s1
         else print (''[FAILED] Cannot modify '' @ key @ [NL]) s1)"

definition cmdConfig :: "server \<Rightarrow> server" where
  "cmdConfig s =
     print (''====================================='' @ [NL, NL])
       (fold (\<lambda>(key, value) s. print ('' = '' @ value @ [NL]) (print_setw 28 key (set_left (print ''  '' s))))
          (listAll s) (print ([NL] @ ''========== CONFIGURATIONS =========='' @ [NL]) s))"

definition cmdReset :: "server \<Rightarrow> server" where
  "cmdReset s = print (''[OK] Configurations reset'' @ [NL]) (config_reset s)"

definition cmdStop :: "server \<Rightarrow> server" where
  "cmdStop s = Server_stop ((print (''Stopping server...'' @ [NL]) s)\<lparr>adminRunning := False\<rparr>)"

definition run_admin :: "AdminCmd \<Rightarrow> string list \<Rightarrow> server \<Rightarrow> server" where
  "run_admin c args s =
     (case c of
        ACmdHelp \<Rightarrow> cmdHelp s | ACmdBroadcast \<Rightarrow> cmdBroadcast args s | ACmdSend \<Rightarrow> cmdSend args s
      | ACmdList \<Rightarrow> cmdList s | ACmdKick \<Rightarrow> cmdKick args s | ACmdBan \<Rightarrow> cmdBan args s
      | ACmdUnban \<Rightarrow> cmdUnban args s | ACmdStats \<Rightarrow> cmdStats s | ACmdSet \<Rightarrow> cmdSet args s
      | ACmdConfig \<Rightarrow> cmdConfig s | ACmdReset \<Rightarrow> cmdReset s | ACmdStop \<Rightarrow> cmdStop s)"

section \<open>The console loop\<close>

definition admin_line :: "string \<Rightarrow> server \<Rightarrow> server" where
  "admin_line line s =
     (case line of
        [] \<Rightarrow> s
      | c # rest \<Rightarrow>
          (if c \<noteq> CHR ''/'' then print (''Commands must start with '' @ [SQ] @ ''/'' @ [SQ] @ ''. Type /help'' @ [NL]) s
           else case split rest '' '' of
             [] \<Rightarrow> s
           | cmdName # args \<Rightarrow>
               (case map_of admin_commands cmdName of
                  None \<Rightarrow> print (''Unknown command: /'' @ cmdName @ [NL]) s
                | Some cmd \<Rightarrow>
                    (if int (length (cmdName # args)) - 1 < minArgs cmd
                     then print (''Usage: '' @ usage cmd @ [NL]) s
                     else let s1 = run_admin (cmd_handler cmd) (cmdName # args) s
                          in if exited s1 \<noteq> None then s1 else print ''admin> '' s1))))"

text \<open>One pass of \<open>commandLoop\<close>; \<open>None\<close>: the loop is left.\<close>

definition admin_pass :: "server \<Rightarrow> server option" where
  "admin_pass s =
     (if \<not> (adminRunning s \<and> status s = RUNNING) then None
      else let (line, i) = getline (cin s)
           in if is_fail i then None else Some (admin_line line (s\<lparr>cin := i\<rparr>)))"

section \<open>What the commands change\<close>

text \<open>
  The part of the state that decides what the server does. A command that keeps it only
  prints, logs and sends.
\<close>

definition core where
  "core (s :: server) =
     (clients s, dispatcher s, config s, definitions s, bannedUsers s, status s, exited s)"

lemma core_print [simp]: "core (print x s) = core s"
  by (simp add: core_def)

lemma core_setw [simp]: "core (print_setw n x s) = core s"
  by (simp add: print_setw_def)

lemma core_format [simp]: "core (set_left s) = core s" "core (set_fill c s) = core s"
  by (simp_all add: core_def set_left_def set_fill_def)

lemma core_log [simp]: "core (logger_log l m s) = core s"
  by (simp add: core_def)

lemma core_send_on [simp]: "core (snd (send_on k m s)) = core s"
  by (simp add: core_def)

lemma core_response [simp]: "core (sendResponse k m s) = core s" "core (sendError k m s) = core s"
  "core (sendOK k m s) = core s"
  by (simp_all add: core_def)

lemma core_close [simp]: "core (os_close k s) = core s"
  by (simp add: core_def)

lemma core_fold: "(\<And>x s. core (f x s) = core s) \<Longrightarrow> core (fold f xs s) = core s"
  by (induction xs arbitrary: s) simp_all

lemma core_fold_snd:
  "(\<And>x n s. core (snd (f x (n, s))) = core s) \<Longrightarrow> core (snd (fold f xs (n, s))) = core s"
proof (induction xs arbitrary: n s)
  case (Cons x xs)
  obtain m t where fx: "f x (n, s) = (m, t)" by force
  from Cons.prems[of x n s] fx have "core t = core s" by simp
  with Cons.IH[OF Cons.prems] fx show ?case by simp
qed simp

lemma core_uptime [simp]: "core (print_uptime u s) = core s"
  by (simp add: print_uptime_def Let_def)

lemma core_listing [simp]:
  "core (cmdHelp s) = core s" "core (cmdList s) = core s" "core (cmdConfig s) = core s"
  unfolding cmdHelp_def cmdList_def cmdConfig_def
  by (simp_all add: Let_def core_fold case_prod_beta)

lemma core_online [simp]: "core (print_online rs s) = core s"
  unfolding print_online_def by (rule core_fold_snd) (simp add: case_prod_beta)

lemma core_stats [simp]: "core (cmdStats s) = core s"
  by (simp add: cmdStats_def Let_def)

lemma core_admin_send_all: "core (snd (admin_send_all m rs s)) = core s"
  unfolding admin_send_all_def by (rule core_fold_snd) (simp add: case_prod_beta Let_def)

lemma core_messages [simp]:
  "core (cmdBroadcast a s) = core s" "core (cmdSend a s) = core s"
  by (simp_all add: cmdBroadcast_def cmdSend_def Let_def case_prod_beta core_admin_send_all)

lemma core_disconnectUser:
  "core (snd (disconnectUser u r s)) =
     (if fst (disconnectUser u r s) then core (unregisterClient u s) else core s)"
  by (simp add: disconnectUser_def Let_def) (simp add: core_def)

lemma fst_disconnectUser: "fst (disconnectUser u r s) \<longleftrightarrow> 0 < getUserSocket u s"
  by (auto simp: disconnectUser_def Let_def)

lemma core_kick: "core (cmdKick a s) =
    (if 0 < getUserSocket (a ! 1) s then core (unregisterClient (a ! 1) s) else core s)"
  by (simp add: cmdKick_def Let_def case_prod_beta core_disconnectUser fst_disconnectUser)

lemma core_saveBanlist [simp]: "core (saveBanlist s) = core s"
  by (simp add: core_def)

lemma core_banlistAdd:
  "core s = core t \<Longrightarrow> core (banlistAdd u s) = core (t\<lparr>bannedUsers := us_insert u (bannedUsers t)\<rparr>)"
  by (simp add: banlistAdd_def) (simp add: core_def)

lemma core_ban: "core (cmdBan a s) =
    (if 0 < getUserSocket (a ! 1) s
     then core ((unregisterClient (a ! 1) s)\<lparr>bannedUsers := us_insert (a ! 1) (bannedUsers s)\<rparr>)
     else core s)"
proof (cases "0 < getUserSocket (a ! 1) s")
  case True
  then have "core (snd (disconnectUser (a ! 1) ''You have been banned by admin'' s)) = core (unregisterClient (a ! 1) s)"
    by (simp add: core_disconnectUser fst_disconnectUser)
  from core_banlistAdd[OF this, of "a ! 1"] True show ?thesis
    by (simp add: cmdBan_def Let_def case_prod_beta fst_disconnectUser)
next
  case False
  then show ?thesis
    by (simp add: cmdBan_def Let_def case_prod_beta fst_disconnectUser core_disconnectUser)
qed

lemma core_unban: "core (cmdUnban a s) = core (s\<lparr>bannedUsers := us_erase (a ! 1) (bannedUsers s)\<rparr>)"
proof -
  have "us_erase u bs = bs" if "u \<notin> set bs" for u and bs :: "string list"
    using that by (induction bs) (auto simp: us_erase_def)
  then show ?thesis
    by (simp add: cmdUnban_def banlistRemove_def Let_def)
qed

lemma core_set: "core (cmdSet a s) = core (snd (config_set (a ! 1) (a ! 2) s))"
  by (simp add: cmdSet_def Let_def case_prod_beta)

lemma core_reset: "core (cmdReset s) = core (config_reset s)"
  by (simp add: cmdReset_def)

section \<open>The format state of the console\<close>

lemma os_left_print [simp]: "os_left (cout (print x s)) = os_left (cout s)"
  "os_left (cout (print_setw n x s)) = os_left (cout s)" "os_left (cout (set_left s))"
  "os_left (cout (set_fill c s)) = os_left (cout s)"
  by (simp_all add: print_def print_setw_def set_left_def set_fill_def)

lemma os_text_print:
  "os_text (cout (print x s)) = os_text (cout s) @ x"
  "os_text (cout (set_fill c s)) = os_text (cout s)"
  "os_text (cout (print_setw n x s)) = os_text (cout s) @ padded (cout s) n x"
  "cout (print x s) = (cout s)\<lparr>os_text := os_text (cout s) @ x\<rparr>"
  "cout (set_fill c s) = (cout s)\<lparr>os_fill := c\<rparr>" "os_fill (cout (print_setw n x s)) = os_fill (cout s)"
  by (simp_all add: print_def print_setw_def set_fill_def)

lemma os_left_fold:
  "os_left (cout t) \<or> cs \<noteq> [] \<Longrightarrow>
   os_left (cout (fold (\<lambda>(name, cmd) s. print (d cmd) (print_setw 24 (usage cmd) (set_left (print ''  '' s)))) cs t))"
  by (induction cs arbitrary: t) auto

lemma os_left_help: "os_left (cout (cmdHelp s))"
proof -
  have "length admin_commands = 12" unfolding admin_commands_def by simp
  then have "admin_commands \<noteq> []" by auto
  then show ?thesis unfolding cmdHelp_def by (intro os_left_fold) simp
qed

lemma to_string_digit: "0 \<le> t \<Longrightarrow> t < 10 \<Longrightarrow> length (to_string t) = 1"
  by (simp add: to_string_def nat_str.simps)

section \<open>Properties\<close>



text \<open>\<open>/kick\<close> on a user who is online sends one error frame to that user, removes the
  registration and closes the socket, and touches nobody else; the name is free again. On a
  user who is not online it only prints.\<close>

theorem kick_spec:
  assumes "s' = cmdKick [c, u] s" and "fd = getUserSocket u s" and "\<forall>k. 0 < k \<longrightarrow> takes_all s k"
  shows "(0 < fd \<longrightarrow> clients s' = um_erase u (clients s) \<and> fdOpen s' = (fdOpen s)(fd := False) \<and>
      (\<forall>k. sent_to k s' = sent_to k s @
         (if k = fd then encodeMessage (build ''ERROR'' [''You have been disconnected by admin'']) else [])) \<and>
      bannedUsers s' = bannedUsers s) \<and>
    (fd \<le> 0 \<longrightarrow> clients s' = clients s \<and> fdOpen s' = fdOpen s \<and> (\<forall>k. sent_to k s' = sent_to k s))"
proof -
  have "sent_to k (unregisterClient v t) = sent_to k t" for k v t
    by (simp add: unregisterClient_def sent_to_def)
  with assms show ?thesis
    by (auto simp: cmdKick_def disconnectUser_def Let_def sent_to_send_on)
qed

theorem kick_spec_witness:
  "clients (cmdKick [''kick'', ''eve''] (example_server [(''bob'', online 4), (''eve'', online 9)])) = [(''bob'', online 4)]"
proof -
  let ?s = "example_server [(''bob'', online 4), (''eve'', online 9)]"
  from kick_spec[OF refl refl, of ?s "''eve''" "''kick''"] show ?thesis
    by (simp add: getUserSocket_def um_erase_def)
qed

text \<open>\<open>/stats\<close> after \<open>/help\<close> misprints the uptime. \<open>/help\<close> leaves \<open>std::left\<close> set on the console,
  so the zeros that pad the hours, minutes and seconds go to the right of the digits: an
  uptime of 5 seconds prints as 00:00:50. Before \<open>/help\<close> it prints as 00:00:05.\<close>

theorem uptime_after_help:
  assumes "0 \<le> t" and "t < 10" and "\<not> os_left (cout s)"
  shows "os_text (cout (print_uptime t (cmdHelp s))) =
      os_text (cout (cmdHelp s)) @ ''Uptime:            00:00:'' @ to_string t @ ''0'' @ [NL] \<and>
    os_text (cout (print_uptime t s)) =
      os_text (cout s) @ ''Uptime:            00:00:'' @ ''0'' @ to_string t @ [NL]"
proof -
  have t: "tdiv t 3600 = 0" "tmod t 3600 = t" "tdiv t 60 = 0" "tmod t 60 = t"
    using assms by (simp_all add: tdiv_nonneg tmod_nonneg)
  have zero: "to_string 0 = ''0''" by code_simp
  have "os_text (cout (print_uptime t p)) = os_text (cout p) @ ''Uptime:            '' @
      (if os_left (cout p) then ''00:00:'' @ to_string t @ ''0'' else ''00:00:'' @ ''0'' @ to_string t) @ [NL]" for p :: server
    using to_string_digit[OF assms(1,2)] unfolding print_uptime_def Let_def t zero
    by (simp add: os_text_print padded_def Let_def)
  with os_left_help assms(3) show ?thesis by simp
qed

theorem uptime_after_help_witness:
  "os_text (cout (print_uptime 5 (cmdHelp (example_server [])))) =
     os_text (cout (cmdHelp (example_server []))) @ ''Uptime:            00:00:50'' @ [NL]"
proof -
  have "to_string 5 = ''5''" by code_simp
  moreover have "\<not> os_left (cout (example_server []))"
    by (simp add: example_server_def Server_new_def idle_process_def process.defs RuntimeConfig_init_def
        logger_log_def Let_def print_def)
  ultimately show ?thesis using uptime_after_help[of 5 "example_server []"] by simp
qed

text \<open>A console line changes the state of the server only when it starts with a slash, names
  one of the twelve commands and has the arguments it needs; any other line at most prints.
  (The state is the registry, the queue, the configuration, the ban list and the status.)\<close>

theorem admin_line_guarded:
  assumes "line = [] \<or> hd line \<noteq> CHR ''/'' \<or> split (tl line) '' '' = [] \<or>
    map_of admin_commands (hd (split (tl line) '' '')) = None \<or>
    (\<exists>cmd. map_of admin_commands (hd (split (tl line) '' '')) = Some cmd \<and>
       int (length (split (tl line) '' '')) - 1 < minArgs cmd)"
  shows "core (admin_line line s) = core s"
  using assms by (auto simp: admin_line_def split: list.split)

theorem admin_line_guarded_witness:
  "core (admin_line ''/kick'' (example_server [(''eve'', online 9)])) = core (example_server [(''eve'', online 9)])"
proof -
  have "split ''kick'' '' '' = [''kick'']" by (simp add: split_char)
  moreover have "map_of admin_commands ''kick'' = Some (snd (reg ''kick'' ACmdKick ''/kick <user>'' ''Disconnect a client'' 1))"
    unfolding admin_commands_def reg_def by simp
  ultimately show ?thesis
    using admin_line_guarded[of "''/kick''" "example_server [(''eve'', online 9)]"] by (simp add: reg_def)
qed

end
