(* ===== verification/Transition.thy ===== *)
theory Transition
  imports Prelude
begin

text \<open>
  Step relations and their invariants: the locale every state machine of the development
  interprets, so that what one step keeps is kept by every run.
\<close>

locale invariant =
  fixes step :: "'s \<Rightarrow> 's \<Rightarrow> bool"
    and inv :: "'s \<Rightarrow> bool"
  assumes step_inv: "step s t \<Longrightarrow> inv s \<Longrightarrow> inv t"
begin

lemma run_inv: "rtranclp step s t \<Longrightarrow> inv s \<Longrightarrow> inv t"
  by (induction rule: rtranclp_induct) (auto intro: step_inv)

lemma run_monotone:
  assumes "\<And>s t. inv s \<Longrightarrow> step s t \<Longrightarrow> P s \<Longrightarrow> P t"
  shows "rtranclp step s t \<Longrightarrow> inv s \<Longrightarrow> P s \<Longrightarrow> P t"
proof (induction rule: rtranclp_induct)
  case (step t u)
  with run_inv[OF step(1)] show ?case using assms by blast
qed

end

text \<open>
  A simulation: every step of a system with an invariant is some steps of a specification,
  so that every run of the system is one of the specification.
\<close>

locale simulation = invariant step inv
  for step :: "'s \<Rightarrow> 's \<Rightarrow> bool" and inv :: "'s \<Rightarrow> bool" +
  fixes spec_step :: "'a \<Rightarrow> 'a \<Rightarrow> bool"
    and abs :: "'s \<Rightarrow> 'a"
  assumes step_sim: "step s t \<Longrightarrow> inv s \<Longrightarrow> rtranclp spec_step (abs s) (abs t)"
begin

lemma run_sim: "rtranclp step s t \<Longrightarrow> inv s \<Longrightarrow> rtranclp spec_step (abs s) (abs t)"
proof (induction rule: rtranclp_induct)
  case (step t u)
  from step(1) step.prems have "inv t" by (rule run_inv)
  from step_sim[OF step(2) this] step.IH step.prems show ?case by (meson rtranclp_trans)
qed simp

end

end
