(* ===== verification/Server_System.thy ===== *)
theory Server_System
  imports Handler_Parts Admin_Handler Transition
begin

text \<open>
  The running server as a transition system: the accept, client, dispatcher, heartbeat and
  administration threads in any order, with the environment moving between them, and the
  invariant every run keeps. Threads are cut where they hold no lock and act on what they
  saw under one: the client threads between the parts of their handlers (Handler_Parts), the
  dispatcher between taking a message and delivering it, the heartbeat between finding the
  late clients and dropping each of them.
\<close>

section \<open>Steps\<close>

text \<open>
  \<open>parts\<close>: what the handlers under way have still to do; \<open>in_flight\<close>: the message the dispatcher has taken; \<open>expired\<close>: the names the heartbeat has
  still to drop.
\<close>

record system =
  server_of :: server
  parts :: "handler_part list"
  in_flight :: "Message option"
  expired :: "string list"

definition idle_system :: "server \<Rightarrow> system" where
  "idle_system s = \<lparr>server_of = s, parts = [], in_flight = None, expired = []\<rparr>"

lemma idle_system_simps [simp]:
  "server_of (idle_system s) = s" "parts (idle_system s) = []" "in_flight (idle_system s) = None"
  "expired (idle_system s) = []" "(idle_system s)\<lparr>server_of := t\<rparr> = idle_system t"
  by (simp_all add: idle_system_def)

text \<open>
  What the environment may change between two passes: bytes and connections arrive, lines
  are typed, time passes, files and descriptors change.
\<close>

definition environment :: "server \<Rightarrow> server \<Rightarrow> bool" where
  "environment s t \<longleftrightarrow>
     t = s\<lparr>rx := rx t, incoming := incoming t, cin := cin t, sysClock := sysClock t,
           steadyClock := steadyClock t, files := files t, canOpen := canOpen t,
           sendResult := sendResult t, fdOpen := fdOpen t\<rparr>"

inductive server_step :: "server \<Rightarrow> server \<Rightarrow> bool" where
  accept: "accept_pass s = Some s' \<Longrightarrow> server_step s s'"
| client: "client_pass k (NetworkStream k) s = (r, s') \<Longrightarrow> server_step s s'"
| ping: "status s = RUNNING \<Longrightarrow> server_step s (ping_clients s)"
| admin: "admin_pass s = Some s' \<Longrightarrow> server_step s s'"
| env: "environment s s' \<Longrightarrow> server_step s s'"

inductive system_step :: "system \<Rightarrow> system \<Rightarrow> bool" where
  atomic: "exited (server_of y) = None \<Longrightarrow> server_step (server_of y) s' \<Longrightarrow>
     system_step y (y\<lparr>server_of := s'\<rparr>)"
| handler_starts: "exited (server_of y) = None \<Longrightarrow> handler_start k (server_of y) = Some (p, s') \<Longrightarrow>
     system_step y (y\<lparr>server_of := s', parts := p # parts y\<rparr>)"
| handler_goes_on: "exited (server_of y) = None \<Longrightarrow> parts y = ps @ p # qs \<Longrightarrow>
     handler_next p (server_of y) = (Some q, s') \<Longrightarrow>
     system_step y (y\<lparr>server_of := s', parts := ps @ q # qs\<rparr>)"
| handler_ends: "exited (server_of y) = None \<Longrightarrow> parts y = ps @ p # qs \<Longrightarrow>
     handler_next p (server_of y) = (None, s') \<Longrightarrow>
     system_step y (y\<lparr>server_of := s', parts := ps @ qs\<rparr>)"
| dispatcher_takes: "exited (server_of y) = None \<Longrightarrow> in_flight y = None \<Longrightarrow>
     dispatch_take (server_of y) = Some (m, s') \<Longrightarrow>
     system_step y (y\<lparr>server_of := s', in_flight := Some m\<rparr>)"
| dispatcher_delivers: "exited (server_of y) = None \<Longrightarrow> in_flight y = Some m \<Longrightarrow>
     system_step y (y\<lparr>server_of := deliver m (server_of y), in_flight := None\<rparr>)"
| heartbeat_scans: "exited (server_of y) = None \<Longrightarrow> status (server_of y) = RUNNING \<Longrightarrow> expired y = [] \<Longrightarrow>
     scan_timeouts (server_of y) = (us, s') \<Longrightarrow> system_step y (y\<lparr>server_of := s', expired := us\<rparr>)"
| heartbeat_drops: "exited (server_of y) = None \<Longrightarrow> expired y = u # us \<Longrightarrow>
     system_step y (y\<lparr>server_of := drop_client u (server_of y), expired := us\<rparr>)"

section \<open>The invariant\<close>

text \<open>A message the line protocol carries, between valid names.\<close>

definition msg_ok :: "Message \<Rightarrow> bool" where
  "msg_ok m \<longleftrightarrow> name_ok (msg_from m) \<and> name_ok (msg_to m) \<and>
     subject m \<noteq> [] \<and> length (subject m) \<le> 500 \<and> CHR '';'' \<notin> set (subject m) \<and>
     body m \<noteq> [] \<and> CHR '';'' \<notin> set (body m)"

definition server_inv :: "server \<Rightarrow> bool" where
  "server_inv s \<longleftrightarrow> config_wf s \<and> um_valid (clients s) \<and> (\<forall>u\<in>fst ` set (clients s). name_ok u) \<and>
     dispatching s \<and> (\<forall>m\<in>set (pending s). msg_ok m)"

fun part_ok :: "handler_part \<Rightarrow> bool" where
  "part_ok (Registering u k) = name_ok u"
| "part_ok (Sending m k) = msg_ok m"
| "part_ok (Copying ms k) = (\<forall>m\<in>set ms. msg_ok m)"
| "part_ok _ = True"

definition system_inv :: "system \<Rightarrow> bool" where
  "system_inv y \<longleftrightarrow> server_inv (server_of y) \<and> (\<forall>p\<in>set (parts y). part_ok p) \<and>
     (\<forall>m. in_flight y = Some m \<longrightarrow> msg_ok m)"

text \<open>The invariant reads the core of the state only.\<close>

lemma server_inv_core: "core s = core t \<Longrightarrow> server_inv s = server_inv t"
  by (simp add: core_def server_inv_def config_wf_def dispatching_def queue_ok_def pending_def)

lemma inv_core: "server_inv s \<Longrightarrow> core t = core s \<Longrightarrow> server_inv t"
  using server_inv_core by blast

lemma server_inv_keep:
  assumes "server_inv s" and "clients t = clients s" and "dispatcher t = dispatcher s"
    and "config t = config s" and "definitions t = definitions s"
  shows "server_inv t"
  using assms by (simp add: server_inv_def config_wf_def dispatching_def queue_ok_def pending_def)

text \<open>Fewer clients, or one more under a valid name.\<close>

lemma server_inv_erase:
  assumes "server_inv s" and "clients t = um_erase u (clients s)" and "dispatcher t = dispatcher s"
    and "config t = config s" and "definitions t = definitions s"
  shows "server_inv t"
proof -
  have "config_wf t = config_wf s" using assms by (intro config_wf_cong) simp_all
  moreover note dispatching_cong(1,2)[OF assms(3)]
  ultimately show ?thesis
    using assms(1,2) by (auto simp: server_inv_def fst_um_erase um_valid_erase simp del: image_iff)
qed

lemma server_inv_put:
  assumes "server_inv s" and "clients t = um_put u i (clients s)" and "name_ok u"
    and "dispatcher t = dispatcher s" and "config t = config s" and "definitions t = definitions s"
  shows "server_inv t"
proof -
  have "config_wf t = config_wf s" using assms by (intro config_wf_cong) simp_all
  moreover note dispatching_cong(1,2)[OF assms(4)]
  ultimately show ?thesis
    using assms(1-3) by (auto simp: server_inv_def fst_um_put um_valid_put simp del: image_iff)
qed

lemma known_name_ok: "server_inv s \<Longrightarrow> map_of (clients s) u = Some i \<Longrightarrow> name_ok u"
  by (force simp: server_inv_def dest: map_of_SomeD)

lemma sender_name_ok: "server_inv s \<Longrightarrow> getUsernameBySocket k s \<noteq> [] \<Longrightarrow> name_ok (getUsernameBySocket k s)"
  by (metis getUsernameBySocket_Some known_name_ok server_inv_def)

section \<open>The client commands keep it\<close>

lemma inv_connect_check: "server_inv s \<Longrightarrow> connect_check a k s = (r, s') \<Longrightarrow> server_inv s'"
  using connect_check_frame(1-4)[of a k s] by (auto intro: server_inv_keep)

lemma inv_connect_commit: "server_inv s \<Longrightarrow> name_ok u \<Longrightarrow> server_inv (connect_commit u k s)"
  by (rule server_inv_put) simp_all

lemma inv_handleConnect:
  assumes "server_inv s"
  shows "server_inv (handleConnect a k s)"
proof (cases "2 \<le> length a \<and> connect_ok (sanitize (a ! 1)) s")
  case True
  then have "name_ok (sanitize (a ! 1))"
    using assms by (auto simp: connect_ok_def server_inv_def intro: isValidUsername_ok)
  with True show ?thesis
    by (intro server_inv_put[OF assms]) (simp_all add: clients_handleConnect)
next
  case False
  then show ?thesis
    by (intro server_inv_keep[OF assms]) (auto simp: clients_handleConnect)
qed

lemma inv_handleDisconnect:
  assumes "server_inv s"
  shows "server_inv (handleDisconnect k s)"
proof (cases "getUsernameBySocket k s = []")
  case True
  then show ?thesis
    by (intro server_inv_keep[OF assms]) (simp_all add: clients_handleDisconnect)
next
  case False
  then show ?thesis
    by (intro server_inv_erase[OF assms]) (simp_all add: clients_handleDisconnect)
qed

text \<open>What SEND puts in the queue is well-formed when the words it got hold no delimiter.\<close>

lemma the_message_ok:
  assumes "server_inv s" and "send_accepted a k s" and "\<forall>x\<in>set a. CHR '';'' \<notin> set x" and "name_ok v"
  shows "msg_ok ((the_message a k s)\<lparr>msg_to := v\<rparr>)"
proof -
  from assms(2) have acc: "4 \<le> length a" "getUsernameBySocket k s \<noteq> []" "isValidSubject (sanitize (a ! 2)) s" "a ! 3 \<noteq> []"
    by (simp_all add: send_accepted_def)
  then have "a ! 2 \<in> set a" "a ! 3 \<in> set a" by simp_all
  with assms(3) have "CHR '';'' \<notin> set (sanitize (a ! 2))" "CHR '';'' \<notin> set (sanitize (a ! 3))"
    by (simp_all add: text_simps)
  moreover have "sanitize (a ! 2) \<noteq> []" "length (sanitize (a ! 2)) \<le> 500"
    using acc(3) subject_limit[of s] assms(1) by (auto simp: isValidSubject_iff server_inv_def)
  ultimately show ?thesis
    using acc assms(4) sender_name_ok[OF assms(1) acc(2)] by (simp add: msg_ok_def the_message_def)
qed

lemma recipients_ok:
  assumes "server_inv s" and "send_accepted a k s" and "\<forall>x\<in>set a. CHR '';'' \<notin> set x"
  shows "\<forall>m\<in>set (recipients_of (the_message a k s) (getAllClients s)). msg_ok m"
proof -
  have "name_ok u" if "(u, sock) \<in> set (getAllClients s)" for u sock
    using that fst_getAllClients[of s] assms(1) by (force simp: server_inv_def)
  with the_message_ok[OF assms] show ?thesis by (auto simp: recipients_of_def)
qed

lemma inv_handleSend:
  assumes inv: "server_inv s" and "\<forall>x\<in>set a. CHR '';'' \<notin> set x"
  shows "server_inv (handleSendMessage a k s)"
proof -
  have disp: "dispatching s" using inv by (simp add: server_inv_def)
  have one: "msg_ok (the_message a k s)" if "send_accepted a k s" "0 < getUserSocket (sanitize (a ! 1)) s"
  proof -
    from getUserSocket_pos[OF that(2)] known_name_ok[OF inv] have "name_ok (sanitize (a ! 1))" by blast
    from the_message_ok[OF inv that(1) assms(2) this] show ?thesis by (simp add: the_message_def)
  qed
  have "\<forall>m\<in>set (pending (handleSendMessage a k s)). msg_ok m"
    using one recipients_ok[OF inv _ assms(2)] inv
    by (auto simp: pending_handleSend(1)[OF disp] server_inv_def split: if_splits dest!: in_set_takeD)
  moreover have "config_wf (handleSendMessage a k s) = config_wf s" by (rule config_wf_cong) simp_all
  ultimately show ?thesis
    using inv pending_handleSend(2)[OF disp] by (simp add: server_inv_def)
qed

lemma inv_handlePong:
  assumes "server_inv s"
  shows "server_inv (handlePong k s)"
proof (cases "map_of (clients s) (getUsernameBySocket k s)")
  case None
  then show ?thesis
    by (intro server_inv_keep[OF assms]) (simp_all add: handlePong_def pong_commit_def updateClientPong_def Let_def)
next
  case (Some i)
  with assms have "name_ok (getUsernameBySocket k s)" by (blast intro: known_name_ok)
  with Some show ?thesis
    by (intro server_inv_put[OF assms])
       (auto simp: handlePong_def pong_commit_def updateClientPong_def Let_def name_ok_def)
qed

lemma core_queries [simp]:
  "core (handlePing k s) = core s" "core (handleListUsers k s) = core s" "core (handleGetLog k s) = core s"
  by (simp_all add: handlePing_def handleListUsers_def handleGetLog_def Let_def split: option.split)

lemma inv_executeCommand:
  assumes "server_inv s" and "CHR '';'' \<notin> set c" and "\<forall>x\<in>set a. CHR '';'' \<notin> set x"
  shows "server_inv (executeCommand c a k s)"
proof -
  have "server_inv (run_command d (c # a) k s)" for d
    using assms inv_handleConnect inv_handleDisconnect inv_handlePong inv_handleSend[of s "c # a" k]
      server_inv_core[of "handlePing k s" s] server_inv_core[of "handleListUsers k s" s]
      server_inv_core[of "handleGetLog k s" s]
    by (cases d) (simp_all add: run_command_def)
  moreover have "server_inv (snd (send_on k m (logger_log l w s)))" for m l w
    using assms(1) server_inv_core[of "snd (send_on k m (logger_log l w s))" s] by simp
  ultimately show ?thesis by (auto simp: executeCommand_def split: option.split)
qed

lemma inv_receive:
  assumes "server_inv s" and "ns_receive ns s = (r, ns', s')"
  shows "server_inv s'"
proof -
  from assms(2) obtain q where "s' = s\<lparr>rx := q\<rparr>" by (rule ns_receive_rx)
  then show ?thesis using server_inv_keep[OF assms(1), of s'] by simp
qed

lemma inv_client_pass:
  assumes "server_inv s" and "client_pass k ns s = (r, s')"
  shows "server_inv s'"
proof (cases "status s = RUNNING \<and> connected ns")
  case True
  obtain m ns1 s1 where recv: "ns_receive ns s = (m, ns1, s1)" by (metis prod_cases3)
  note inv = inv_receive[OF assms(1) recv]
  show ?thesis
  proof (cases m)
    case None
    with True assms(2) recv inv show ?thesis
      by (auto simp: client_pass_def Let_def inv_handleDisconnect split: if_splits)
  next
    case (Some raw)
    with True assms(2) recv inv show ?thesis
      using inv_executeCommand[of s1 "command (parse raw)" "arguments (parse raw)" k] parse_no_delim[of _ raw]
      by (auto simp: client_pass_def Let_def split: if_splits)
  qed
qed (use assms in \<open>auto simp: client_pass_def\<close>)

section \<open>The parts of the handlers keep it\<close>

lemma send_check_ok:
  assumes "server_inv s" and "send_check a k s = (Some m, s')" and "\<forall>x\<in>set a. CHR '';'' \<notin> set x"
  shows "server_inv s' \<and> msg_ok m"
proof
  note c = send_check_Some[OF assms(2)]
  show "server_inv s'"
    unfolding c(3) by (rule server_inv_keep[OF assms(1)]) (simp_all add: incrementMessagesReceived_def)
  have "name_ok (msg_to m)"
    using c(4) known_name_ok[OF assms(1)] getUserSocket_pos[of "msg_to m" s]
    by (auto simp: name_ok_def username_char_def isalnum_def isalpha_def)
  from the_message_ok[OF assms(1) c(1) assms(3) this] show "msg_ok m" unfolding c(2) by simp
qed

lemma inv_command_start:
  assumes "server_inv s" and "command_start cmd a k s = Some (p, s')" and "\<forall>x\<in>set a. CHR '';'' \<notin> set x"
  shows "server_inv s' \<and> part_ok p"
proof (cases cmd)
  case CmdConnect
  with assms(2) obtain u where c: "connect_check a k s = (Some u, s')" "p = Registering u k"
    by (auto simp: command_start_def Let_def split: prod.splits option.splits)
  from c(1) have "isValidUsername u s" by (auto simp: connect_check_Some connect_ok_def)
  then have "name_ok u" using assms(1) by (auto simp: server_inv_def intro: isValidUsername_ok)
  with c(2) inv_connect_check[OF assms(1) c(1)] show ?thesis by simp
next
  case CmdSend
  with assms(2) obtain m where "send_check a k s = (Some m, s')" "p = Sending m k"
    by (auto simp: command_start_def Let_def split: prod.splits option.splits)
  with send_check_ok[OF assms(1) _ assms(3)] show ?thesis by simp
qed (use assms(1,2) in \<open>auto simp: command_start_def Let_def split: if_splits\<close>)

lemma inv_handler_start:
  assumes "server_inv s" and "handler_start k s = Some (p, s')"
  shows "server_inv s' \<and> part_ok p"
  using handler_start_cases[OF assms(2)] inv_receive[OF assms(1)] inv_command_start parse_no_delim
  by (metis insert_iff list.set(2) empty_iff list.set(1))

lemma inv_queue:
  assumes "server_inv s" and "msg_ok m"
  shows "server_inv (snd (server_queue m s))"
proof -
  have d: "dispatching s" using assms(1) by (simp add: server_inv_def)
  have "config_wf (snd (server_queue m s)) = config_wf s" by (rule config_wf_cong) simp_all
  with assms sq.offer_contents[OF d, of m] sq.offer_inv[OF d, of m] show ?thesis
    by (auto simp: server_inv_def)
qed

lemma inv_disconnect_commit: "server_inv s \<Longrightarrow> server_inv (disconnect_commit u k s)"
  by (rule server_inv_erase[where u = u]) (simp_all add: disconnect_commit_eq)

lemma inv_pong_commit:
  assumes "server_inv s"
  shows "server_inv (pong_commit u s)"
proof (cases "map_of (clients s) u")
  case None
  then show ?thesis
    by (intro server_inv_keep[OF assms]) (simp_all add: pong_commit_def updateClientPong_def)
next
  case (Some i)
  with assms have "name_ok u" by (blast intro: known_name_ok)
  with Some show ?thesis
    by (intro server_inv_put[OF assms]) (auto simp: pong_commit_def updateClientPong_def)
qed

lemma copies_ok:
  assumes "server_inv s" and "msg_ok m"
  shows "\<forall>x\<in>set (recipients_of m (getAllClients s)). msg_ok x"
proof -
  have "name_ok u" if "(u, sock) \<in> set (getAllClients s)" for u sock
    using that fst_getAllClients[of s] assms(1) by (force simp: server_inv_def)
  with assms(2) show ?thesis by (auto simp: recipients_of_def msg_ok_def)
qed

lemma send_commit_one: "msg_to m \<noteq> ''all'' \<Longrightarrow> dispatcher (send_commit m k s) = dispatcher (snd (server_queue m s))"
  by (simp add: send_commit_def Let_def case_prod_beta)

lemma inv_handler_next:
  assumes "server_inv s" and "part_ok p" and "handler_next p s = (r, s')"
  shows "server_inv s' \<and> (\<forall>q. r = Some q \<longrightarrow> part_ok q)"
  using assms
proof (induction p s rule: handler_next.induct)
  case (1 u k s)
  have "server_inv (connect_register u k s)" if "name_ok u"
    by (rule server_inv_put[OF 1(1) _ that]) simp_all
  with 1 show ?case by auto
next
  case (2 u k s)
  have "server_inv (connect_answer u k s)" by (rule server_inv_keep[OF 2(1)]) simp_all
  with 2 show ?case by auto
next
  case (3 m k s)
  show ?case
  proof (cases "msg_to m = ''all''")
    case True
    have "server_inv (LOG_INFO (''Broadcast from '' @ msg_from m) s)" by (rule server_inv_keep[OF 3(1)]) simp_all
    with 3 True copies_ok[OF this, of m] show ?thesis by (auto simp: Let_def)
  next
    case False
    have "server_inv (send_commit m k s)"
      by (rule server_inv_keep[OF inv_queue[OF 3(1)]]) (use 3(2) False in \<open>simp_all add: send_commit_one\<close>)
    with 3 False show ?thesis by auto
  qed
next
  case (4 m ms k s)
  then show ?case by (auto intro: inv_queue)
next
  case (5 k s)
  have "server_inv (sendOK k ''Broadcast sent'' s)" by (rule inv_core[OF 5(1)]) simp
  with 5 show ?case by auto
next
  case (6 u k s)
  then show ?case by (auto intro: inv_disconnect_commit)
next
  case (7 u s)
  then show ?case by (auto intro: inv_pong_commit)
qed

section \<open>The other threads keep it\<close>

lemma core_sleep_env: "environment s t \<Longrightarrow> core t = core s"
  unfolding environment_def core_def by (erule ssubst) simp

lemma dispatch_take_Some:
  assumes "dispatch_take s = Some (m, s')"
  shows "\<exists>d rest. dispatcher s = Some d \<and> messages d = m # rest \<and> dispatcher s' = Some (d\<lparr>messages := rest\<rparr>) \<and>
    clients s' = clients s \<and> bannedUsers s' = bannedUsers s \<and> config s' = config s \<and> definitions s' = definitions s"
  using assms by (auto simp: dispatch_take_def Let_def split: option.splits if_splits list.splits)

lemma inv_dispatch_take:
  assumes "server_inv s" and "dispatch_take s = Some (m, s')"
  shows "server_inv s' \<and> msg_ok m"
proof -
  from dispatch_take_Some[OF assms(2)] obtain d rest where d: "dispatcher s = Some d" "messages d = m # rest"
    and s': "dispatcher s' = Some (d\<lparr>messages := rest\<rparr>)" "clients s' = clients s"
      "config s' = config s" "definitions s' = definitions s" by blast
  have "config_wf s' = config_wf s" using s' by (intro config_wf_cong) simp_all
  with assms(1) d s' show ?thesis
    by (simp add: server_inv_def dispatching_def queue_ok_def pending_def)
qed

lemma inv_deliver: "server_inv s \<Longrightarrow> server_inv (deliver m s)"
  by (rule server_inv_keep) simp_all

lemma core_ping_fold: "core (fold (\<lambda>(username, info) s. LOG_DEBUG (''PING sent to '' @ username)
    (snd (send_on (socket info) (''PING'' @ [NL]) s))) cs s) = core s"
  by (rule core_fold) (simp add: case_prod_beta)

lemma ping_clients_fields:
  "clients (ping_clients s) = map (\<lambda>(u, i). (u, i\<lparr>waitingForPong := True\<rparr>)) (clients s)"
  "dispatcher (ping_clients s) = dispatcher s" "config (ping_clients s) = config s"
  "definitions (ping_clients s) = definitions s"
  using core_ping_fold[of "clients s" s] by (simp_all add: ping_clients_def core_def Let_def)

lemma inv_ping:
  assumes "server_inv s"
  shows "server_inv (ping_clients s)"
proof -
  have keys: "map fst (clients (ping_clients s)) = map fst (clients s)"
    by (simp add: ping_clients_fields case_prod_beta comp_def)
  then have "fst ` set (clients (ping_clients s)) = fst ` set (clients s)" by (metis set_map)
  moreover have "config_wf (ping_clients s) = config_wf s"
    by (rule config_wf_cong) (simp_all add: ping_clients_fields)
  moreover note dispatching_cong(1,2)[OF ping_clients_fields(2)[of s]]
  ultimately show ?thesis
    using assms keys by (simp add: server_inv_def um_valid_def)
qed

lemma inv_fold: "(\<And>x s. server_inv s \<Longrightarrow> server_inv (f x s)) \<Longrightarrow> server_inv s \<Longrightarrow> server_inv (fold f xs s)"
  by (induction xs arbitrary: s) simp_all

lemma core_scan: "core (snd (scan_timeouts s)) = core s"
  unfolding scan_timeouts_def Let_def snd_conv by (rule core_fold) (simp add: case_prod_beta)

lemma inv_drop_client: "server_inv s \<Longrightarrow> server_inv (drop_client u s)"
  by (simp add: drop_client_def Let_def inv_handleDisconnect)

lemma core_accept: "accept_pass s = Some s' \<Longrightarrow> core s' = core s"
  by (auto simp: accept_pass_def core_def Let_def split: if_splits list.splits option.splits)

section \<open>The console keeps it\<close>

lemma inv_erase_core:
  assumes "server_inv s" and "core t = core (unregisterClient u s)"
  shows "server_inv t"
proof -
  have "server_inv (unregisterClient u s)" by (rule server_inv_erase[OF assms(1)]) simp_all
  then show ?thesis using assms(2) by (rule inv_core)
qed

lemma inv_bans: "server_inv s \<Longrightarrow> server_inv (s\<lparr>bannedUsers := b\<rparr>)"
  by (rule server_inv_keep) simp_all

lemma inv_config:
  assumes "server_inv s" and "config_wf t" and "clients t = clients s" and "dispatcher t = dispatcher s"
  shows "server_inv t"
  using assms dispatching_cong(1,2)[OF assms(4)] by (simp add: server_inv_def)

lemma validateValue_more [simp]: "process.more (snd (validateValue k v d p)) = process.more p"
  by (simp add: validateValue_def split: option.split)

lemma config_set_more: "process.more (snd (config_set k v p)) = process.more p"
  by (simp add: config_set_def Let_def case_prod_beta split: option.split)

lemma config_reset_more: "process.more (config_reset p) = process.more p"
  by (simp add: config_reset_def)

lemmas config_set_server [simp] = server_frame[OF config_set_more] server_frame[OF config_reset_more]

lemma fold_close_fields:
  "dispatcher (fold (\<lambda>(u, i). os_close (socket i)) cs s) = dispatcher (s :: server)"
  "config (fold (\<lambda>(u, i). os_close (socket i)) cs s) = config s"
  "definitions (fold (\<lambda>(u, i). os_close (socket i)) cs s) = definitions s"
  by (induction cs arbitrary: s) auto

lemma Server_stop_fields:
  "dispatcher (Server_stop s) = dispatcher s" "config (Server_stop s) = config s"
  "definitions (Server_stop s) = definitions s"
  "clients (Server_stop s) = (if status s = OFF \<or> status s = STOPPING then clients s else [])"
  by (simp_all add: Server_stop_def Let_def fold_close_fields)

lemma inv_stop:
  assumes "server_inv s"
  shows "server_inv (Server_stop s)"
proof (cases "status s = OFF \<or> status s = STOPPING")
  case True
  with assms show ?thesis by (auto simp: Server_stop_def)
next
  case False
  have "config_wf (Server_stop s) = config_wf s" by (rule config_wf_cong) (simp_all add: Server_stop_fields)
  moreover note dispatching_cong(1,2)[OF Server_stop_fields(1)[of s]]
  ultimately show ?thesis using assms False by (simp add: server_inv_def Server_stop_fields)
qed

lemma inv_run_admin:
  assumes "server_inv s"
  shows "server_inv (run_admin c a s)"
proof (cases c)
  case ACmdKick
  show ?thesis
  proof (cases "0 < getUserSocket (a ! 1) s")
    case True
    with ACmdKick show ?thesis
      by (intro inv_erase_core[OF assms, where u = "a ! 1"]) (simp add: run_admin_def core_kick)
  next
    case False
    with ACmdKick show ?thesis by (intro inv_core[OF assms]) (simp add: run_admin_def core_kick)
  qed
next
  case ACmdBan
  let ?t = "(unregisterClient (a ! 1) s)\<lparr>bannedUsers := us_insert (a ! 1) (bannedUsers s)\<rparr>"
  have "server_inv ?t" by (intro inv_bans inv_erase_core[OF assms]) simp
  moreover have "core (cmdBan a s) = core ?t \<or> core (cmdBan a s) = core s"
    unfolding core_ban by simp
  ultimately show ?thesis
    using ACmdBan inv_core[OF assms] inv_core by (auto simp: run_admin_def)
next
  case ACmdUnban
  from inv_core[OF inv_bans[OF assms] core_unban] ACmdUnban show ?thesis by (simp add: run_admin_def)
next
  case ACmdSet
  have "config_wf (snd (config_set (a ! 1) (a ! 2) s))"
    using assms by (intro config_wf_set) (simp add: server_inv_def)
  then have "server_inv (snd (config_set (a ! 1) (a ! 2) s))" by (intro inv_config[OF assms]) simp_all
  from inv_core[OF this core_set] ACmdSet show ?thesis by (simp add: run_admin_def)
next
  case ACmdReset
  have "config_wf (config_reset s)" using assms by (intro config_wf_reset) (simp add: server_inv_def)
  then have "server_inv (config_reset s)" by (intro inv_config[OF assms]) simp_all
  from inv_core[OF this core_reset] ACmdReset show ?thesis by (simp add: run_admin_def)
next
  case ACmdStop
  have "server_inv ((print (''Stopping server...'' @ [NL]) s)\<lparr>adminRunning := False\<rparr>)"
    by (rule server_inv_keep[OF assms]) simp_all
  with ACmdStop show ?thesis by (simp add: run_admin_def cmdStop_def inv_stop)
qed (use assms in \<open>auto simp: run_admin_def elim: inv_core\<close>)

lemma inv_admin_line: "server_inv s \<Longrightarrow> server_inv (admin_line l s)"
  unfolding admin_line_def Let_def
  by (auto split: list.split option.split if_split intro: inv_run_admin inv_core inv_core[OF inv_run_admin])

lemma inv_admin_pass:
  assumes "server_inv s" and "admin_pass s = Some s'"
  shows "server_inv s'"
proof -
  from assms(2) obtain l i where "s' = admin_line l (s\<lparr>cin := i\<rparr>)"
    by (auto simp: admin_pass_def split: if_splits prod.splits)
  moreover have "server_inv (s\<lparr>cin := i\<rparr>)" by (rule server_inv_keep[OF assms(1)]) simp_all
  ultimately show ?thesis by (simp add: inv_admin_line)
qed

section \<open>Runs\<close>

lemma server_step_inv: "server_step s t \<Longrightarrow> server_inv s \<Longrightarrow> server_inv t"
  by (induction rule: server_step.induct)
     (auto intro: inv_client_pass inv_ping inv_admin_pass
       elim: inv_core core_accept core_sleep_env)

lemma system_step_inv: "system_step y z \<Longrightarrow> system_inv y \<Longrightarrow> system_inv z"
proof (induction rule: system_step.induct)
  case (atomic y s')
  then show ?case by (auto simp: system_inv_def intro: server_step_inv)
next
  case (handler_starts y k p s')
  with inv_handler_start[of "server_of y" k p s'] show ?case by (auto simp: system_inv_def)
next
  case (handler_goes_on y ps p qs q s')
  with inv_handler_next[of "server_of y" p "Some q" s'] show ?case by (auto simp: system_inv_def)
next
  case (handler_ends y ps p qs s')
  with inv_handler_next[of "server_of y" p None s'] show ?case by (auto simp: system_inv_def)
next
  case (dispatcher_takes y m s')
  with inv_dispatch_take[of "server_of y" m s'] show ?case by (auto simp: system_inv_def)
next
  case (dispatcher_delivers y m)
  then show ?case by (auto simp: system_inv_def intro: inv_deliver)
next
  case (heartbeat_scans y us s')
  with inv_core[OF _ core_scan, of "server_of y"] show ?case by (auto simp: system_inv_def)
next
  case (heartbeat_drops y u us)
  then show ?case by (auto simp: system_inv_def intro: inv_drop_client)
qed

interpretation srv: invariant server_step server_inv
  by unfold_locales (rule server_step_inv)

interpretation sys: invariant system_step system_inv
  by unfold_locales (rule system_step_inv)

lemma system_inv_start:
  assumes "Server_start PORT n s = (0, s0)" and "clients s = []" and "config_wf s"
  shows "system_inv (idle_system s0)"
proof -
  from assms(1) have s0: "s0 = start_services (snd (open_listener PORT n s))"
    by (auto simp: Server_start_def split: if_splits prod.splits option.splits)
  have "config_wf s0 = config_wf s"
    unfolding s0 by (rule config_wf_cong) (simp_all add: start_services_spec open_listener_spec)
  with assms(2,3) show ?thesis
    by (simp add: system_inv_def idle_system_def server_inv_def s0 start_services_spec open_listener_spec)
qed

lemma fdOpen_fold_close:
  "fdOpen (fold (\<lambda>(u, i). os_close (socket i)) cs (s :: server)) k \<longleftrightarrow> fdOpen s k \<and> (\<forall>(u, i)\<in>set cs. socket i \<noteq> k)"
  by (induction cs arbitrary: s) (auto split: if_splits)

inductive_cases system_stepE: "system_step y z"

lemma exited_stuck: "exited (server_of y) \<noteq> None \<Longrightarrow> \<not> system_step y z"
  by (auto elim: system_stepE)

section \<open>Properties\<close>

text \<open>C1: The invariant of the server, over every interleaving of its threads. In every state
  reachable from a successful start (with the handlers cut at the points where they hold no lock):
  the registered names are distinct, valid and free of separators; the queue holds at most
  10000 messages, each between valid names, with a subject of 1 to 500 characters and a
  non-empty body, and none of its fields holds the delimiter; and every integer setting of
  the configuration reads as a number in its range.\<close>

theorem server_run_invariant:
  assumes "Server_start PORT n s = (0, s0)" and "clients s = []" and "config_wf s"
    and "rtranclp system_step (idle_system s0) y"
  shows "distinct (map fst (clients (server_of y))) \<and>
    (\<forall>u\<in>fst ` set (clients (server_of y)). name_ok u) \<and>
    length (pending (server_of y)) \<le> 10000 \<and>
    (\<forall>m\<in>set (pending (server_of y)). msg_ok m) \<and>
    (\<forall>k d. map_of initializeDefinitions k = Some d \<longrightarrow> cd_type d = CT_INT \<longrightarrow>
       (\<exists>v. getInt k (server_of y) = Some v \<and> minValue d \<le> v \<and> v \<le> maxValue d))"
proof -
  have "system_inv y" using sys.run_inv[OF assms(4) system_inv_start[OF assms(1-3)]] .
  then have "server_inv (server_of y)" by (simp add: system_inv_def)
  then show ?thesis
    using config_wf_getInt[of "server_of y"] pending_bound[of "server_of y"]
    unfolding server_inv_def um_valid_def by blast
qed

theorem server_run_invariant_witness:
  "\<exists>s0. Server_start 8080 0 ((example_server [])\<lparr>status := OFF, newSocket := 3\<rparr>) = (0, s0) \<and>
     length (pending s0) \<le> 10000"
proof -
  let ?s = "(example_server [])\<lparr>status := OFF, newSocket := 3\<rparr>"
  have "bindOk ?s" "listenOk ?s"
    by (simp_all add: example_server_def Server_new_def RuntimeConfig_init_def process.defs server.defs)
  then obtain s0 where s0: "Server_start 8080 0 ?s = (0, s0)"
    using open_listener_spec(1)[of 8080 0 ?s]
    by (cases "open_listener 8080 0 ?s") (auto simp: Server_start_def)
  have "config_wf ?s" by (subst config_wf_cong[of ?s "example_server []"]) simp_all
  from server_run_invariant[OF s0 _ this rtranclp.rtrancl_refl] s0 show ?thesis by (auto simp: idle_system_def)
qed

text \<open>C29: \<open>stop\<close> on a running server closes the socket of every client and the listening socket,
  empties the registry, leaves the server off and ends the process: no thread takes a step
  afterwards. On a server that is off or stopping it does nothing.\<close>

theorem stop_spec:
  assumes "s' = Server_stop s"
  shows "(status s = RUNNING \<or> status s = STARTING \<longrightarrow>
      clients s' = [] \<and> status s' = OFF \<and> exited s' = Some 0 \<and>
      (\<forall>(u, i)\<in>set (clients s). \<not> fdOpen s' (socket i)) \<and>
      (0 < listenSocket (sconfig s) \<longrightarrow> \<not> fdOpen s' (listenSocket (sconfig s))) \<and>
      (\<forall>y z. server_of y = s' \<longrightarrow> \<not> system_step y z)) \<and>
    (status s = OFF \<or> status s = STOPPING \<longrightarrow> s' = s)"
proof (intro conjI impI)
  assume st: "status s = RUNNING \<or> status s = STARTING"
  have sc: "sconfig (fold (\<lambda>(u, i). os_close (socket i)) cs t) = sconfig t" for cs and t :: server
    by (rule fold_keeps) (simp add: case_prod_beta)
  from st show ex: "exited s' = Some 0" and "clients s' = []" and "status s' = OFF"
    by (auto simp: assms Server_stop_def Let_def)
  from st show "\<forall>(u, i)\<in>set (clients s). \<not> fdOpen s' (socket i)"
    by (auto simp: assms Server_stop_def Let_def sc fdOpen_fold_close)
  from st show "\<not> fdOpen s' (listenSocket (sconfig s))" if "0 < listenSocket (sconfig s)"
    using that by (auto simp: assms Server_stop_def Let_def sc)
  from ex show "\<forall>y z. server_of y = s' \<longrightarrow> \<not> system_step y z" using exited_stuck by auto
next
  assume "status s = OFF \<or> status s = STOPPING"
  then show "s' = s" by (auto simp: assms Server_stop_def)
qed

theorem stop_spec_witness:
  "\<not> fdOpen (Server_stop (example_server [(''al'', online 4)])) 4"
  using stop_spec[of _ "example_server [(''al'', online 4)]", OF refl] by simp

end
