(* ===== verification/Chat_Spec.thy ===== *)
theory Chat_Spec
  imports Server_System
begin

text \<open>
  What the server promises its clients, without its data structures: a set of members with
  the connection each one uses, a set of banned names and one mailbox. The handlers of
  \<open>src/Server/CommandHandler.cpp\<close>, with the registry, ban list and queue they work on, are
  proved to implement it. The order in which a broadcast visits the members is left open
  here, as the standard leaves it open for the container of the code.
\<close>

section \<open>The specification\<close>

record chat =
  members :: "string \<Rightarrow> fd option"
  banned :: "string set"
  mailbox :: "Message list"

text \<open>A name or a subject that may be used when the configured limit is \<open>n\<close>.\<close>

definition name_valid :: "nat \<Rightarrow> string \<Rightarrow> bool" where
  "name_valid n u \<longleftrightarrow> u \<noteq> [] \<and> length u \<le> n \<and> (\<forall>c\<in>set u. username_char c)"

definition subject_valid :: "nat \<Rightarrow> string \<Rightarrow> bool" where
  "subject_valid n x \<longleftrightarrow> x \<noteq> [] \<and> length x \<le> n"

text \<open>The letters posted by an accepted SEND: \<open>copies\<close> is what goes to the mailbox if it has room.\<close>

definition posts :: "chat \<Rightarrow> Message \<Rightarrow> Message list \<Rightarrow> bool" where
  "posts t m copies \<longleftrightarrow>
     (if msg_to m = ''all''
      then distinct (map msg_to copies) \<and> set (map msg_to copies) = dom (members t) - {msg_from m} \<and>
           (\<forall>x\<in>set copies. x\<lparr>msg_to := ''all''\<rparr> = m)
      else copies = (case members t (msg_to m) of Some k \<Rightarrow> if 0 < k then [m] else [] | None \<Rightarrow> []))"

text \<open>The effect of one client line, on the connection \<open>k\<close>, at time \<open>now\<close>.\<close>

definition chat_command :: "nat \<Rightarrow> nat \<Rightarrow> int \<Rightarrow> string \<Rightarrow> string list \<Rightarrow> fd \<Rightarrow> chat \<Rightarrow> chat \<Rightarrow> bool" where
  "chat_command nameLimit subjectLimit now cmd args k t t' \<longleftrightarrow>
     (if cmd = ''CONNECT'' \<and> args \<noteq> [] \<and> name_valid nameLimit (sanitize (args ! 0)) \<and>
         sanitize (args ! 0) \<notin> banned t \<and> members t (sanitize (args ! 0)) = None
      then t' = t\<lparr>members := (members t)(sanitize (args ! 0) \<mapsto> k)\<rparr>
      else if cmd = ''DISCONNECT'' \<and> k \<in> ran (members t)
      then \<exists>u. members t u = Some k \<and> t' = t\<lparr>members := (members t)(u := None)\<rparr>
      else if cmd = ''SEND'' \<and> 3 \<le> length args \<and> k \<in> ran (members t) \<and>
         subject_valid subjectLimit (sanitize (args ! 1)) \<and> args ! 2 \<noteq> []
      then \<exists>u copies. members t u = Some k \<and>
         posts t \<lparr>msg_from = u, msg_to = sanitize (args ! 0), subject = sanitize (args ! 1),
                  body = sanitize (args ! 2), timestamp = now\<rparr> copies \<and>
         t' = t\<lparr>mailbox := mailbox t @ take (10000 - length (mailbox t)) copies\<rparr>
      else t' = t)"

lemma chat_command_SEND:
  assumes "3 \<le> length args \<and> k \<in> ran (members t) \<and> subject_valid l (sanitize (args ! 1)) \<and> args ! 2 \<noteq> []"
    and "members t u = Some k"
    and "posts t \<lparr>msg_from = u, msg_to = sanitize (args ! 0), subject = sanitize (args ! 1),
                  body = sanitize (args ! 2), timestamp = now\<rparr> copies"
    and "t' = t\<lparr>mailbox := mailbox t @ take (10000 - length (mailbox t)) copies\<rparr>"
  shows "chat_command n l now ''SEND'' args k t t'"
  using assms by (simp add: chat_command_def) blast

lemma chat_command_SEND_D:
  assumes "chat_command n l now ''SEND'' [a, b, c] k t t'" and "members t u = Some k" "subject_valid l (sanitize b)" "c \<noteq> []"
    and "\<And>v. members t v = Some k \<Longrightarrow> v = u"
  shows "\<exists>copies. posts t \<lparr>msg_from = u, msg_to = sanitize a, subject = sanitize b,
      body = sanitize c, timestamp = now\<rparr> copies \<and>
    t' = t\<lparr>mailbox := mailbox t @ take (10000 - length (mailbox t)) copies\<rparr>"
proof -
  have "k \<in> ran (members t)" using assms(2) by (rule ranI)
  with assms(1,3,4) obtain v copies where "members t v = Some k"
    "posts t \<lparr>msg_from = v, msg_to = sanitize a, subject = sanitize b, body = sanitize c, timestamp = now\<rparr> copies"
    "t' = t\<lparr>mailbox := mailbox t @ take (10000 - length (mailbox t)) copies\<rparr>"
    by (auto simp: chat_command_def)
  with assms(5) show ?thesis by blast
qed

section \<open>The abstraction\<close>

definition abs_server :: "server \<Rightarrow> chat" where
  "abs_server s = \<lparr>members = (\<lambda>u. map_option socket (map_of (clients s) u)),
     banned = set (bannedUsers s), mailbox = pending s\<rparr>"

definition name_limit :: "server \<Rightarrow> nat" where
  "name_limit s = unat (length_limit ''MAX_USERNAME_LENGTH'' MAX_USERNAME_LENGTH s)"

definition subject_limit_of :: "server \<Rightarrow> nat" where
  "subject_limit_of s = unat (length_limit ''MAX_SUBJECT_LENGTH'' MAX_SUBJECT_LENGTH s)"

lemma abs_core: "core s = core t \<Longrightarrow> abs_server s = abs_server t"
  by (simp add: abs_server_def core_def pending_def)

lemma abs_valid:
  "isValidUsername u s \<longleftrightarrow> name_valid (name_limit s) u"
  "isValidSubject x s \<longleftrightarrow> subject_valid (subject_limit_of s) x"
  by (simp_all add: isValidUsername_iff isValidSubject_iff name_valid_def subject_valid_def
      name_limit_def subject_limit_of_def)

lemma abs_members: "members (abs_server s) u = map_option socket (map_of (clients s) u)"
  "dom (members (abs_server s)) = fst ` set (clients s)"
proof -
  have "dom (members (abs_server s)) = dom (map_of (clients s))" by (simp add: abs_server_def dom_def)
  then show "dom (members (abs_server s)) = fst ` set (clients s)" by (simp add: dom_map_of_conv_image_fst)
qed (simp add: abs_server_def)

lemma abs_socket:
  "getUserSocket u s = (case members (abs_server s) u of Some k \<Rightarrow> k | None \<Rightarrow> -1)"
  by (simp add: abs_members getUserSocket_def split: option.split)

text \<open>A connection has a name exactly when it is the connection of a member.\<close>

lemma abs_username:
  assumes "server_inv s"
  shows "getUsernameBySocket k s \<noteq> [] \<Longrightarrow> members (abs_server s) (getUsernameBySocket k s) = Some k"
    and "getUsernameBySocket k s = [] \<longleftrightarrow> k \<notin> ran (members (abs_server s))"
proof -
  have valid: "um_valid (clients s)" and ne: "\<forall>(u, i)\<in>set (clients s). u \<noteq> []"
    using assms by (auto simp: server_inv_def name_ok_def)
  show "getUsernameBySocket k s \<noteq> [] \<Longrightarrow> members (abs_server s) (getUsernameBySocket k s) = Some k"
    using getUsernameBySocket_Some[OF valid refl, of k] by (auto simp: abs_members)
  have "k \<in> ran (members (abs_server s)) \<longleftrightarrow> (\<exists>(u, i)\<in>set (clients s). socket i = k)"
    using valid by (fastforce simp: ran_def abs_members um_valid_def)
  then show "getUsernameBySocket k s = [] \<longleftrightarrow> k \<notin> ran (members (abs_server s))"
    unfolding getUsernameBySocket_Nil[OF ne] by auto
qed

section \<open>Each handler refines its part\<close>

lemma abs_connect:
  assumes "server_inv s"
  shows "chat_command (name_limit s) (subject_limit_of s) now ''CONNECT'' args k
    (abs_server s) (abs_server (handleConnect (''CONNECT'' # args) k s))"
proof -
  let ?s = "handleConnect (''CONNECT'' # args) k s"
  have p: "pending ?s = pending s" by (rule dispatching_cong(2)) simp
  show ?thesis
  proof (cases args)
    case Nil
    with p show ?thesis
      by (simp add: chat_command_def abs_server_def clients_handleConnect)
  next
    case (Cons a as)
    with p show ?thesis
      by (auto simp: chat_command_def abs_server_def clients_handleConnect connect_ok_def abs_valid fun_eq_iff)
  qed
qed

lemma abs_disconnect:
  assumes "server_inv s"
  shows "chat_command n m now ''DISCONNECT'' args k (abs_server s) (abs_server (handleDisconnect k s))"
proof -
  let ?u = "getUsernameBySocket k s" and ?s = "handleDisconnect k s"
  have p: "pending ?s = pending s" by (rule dispatching_cong(2)) simp
  show ?thesis
  proof (cases "?u = []")
    case True
    then have "abs_server ?s = abs_server s" by (simp add: abs_server_def clients_handleDisconnect p)
    with True abs_username(2)[OF assms, of k] show ?thesis by (simp add: chat_command_def)
  next
    case False
    have "abs_server ?s = (abs_server s)\<lparr>members := (members (abs_server s))(?u := None)\<rparr>"
      using False by (simp add: abs_server_def clients_handleDisconnect p fun_eq_iff)
    with False abs_username[OF assms, of k] show ?thesis by (auto simp: chat_command_def)
  qed
qed

lemma posts_recipients:
  assumes "um_valid (clients s)" and "msg_to m = to"
  shows "posts (abs_server s) m (if to = ''all'' then recipients_of m (getAllClients s)
      else if 0 < getUserSocket to s then [m] else [])"
proof (cases "to = ''all''")
  case True
  then have "x\<lparr>msg_to := ''all''\<rparr> = m" if "x \<in> set (recipients_of m (getAllClients s))" for x
    using that assms(2) by (auto simp: recipients_of_def)
  with True show ?thesis
    using recipients_names(1,2)[OF assms(1), of m] assms(2) by (simp add: posts_def abs_members(2))
next
  case False
  with assms(2) show ?thesis by (simp add: posts_def abs_socket split: option.split)
qed

lemma abs_send:
  assumes "server_inv s"
  shows "chat_command (name_limit s) (subject_limit_of s) (sysClock s) ''SEND'' args k
    (abs_server s) (abs_server (handleSendMessage (''SEND'' # args) k s))"
proof -
  let ?a = "''SEND'' # args" and ?t = "abs_server s" and ?u = "getUsernameBySocket k s"
  have disp: "dispatching s" and valid: "um_valid (clients s)" using assms by (simp_all add: server_inv_def)
  have same: "abs_server (handleSendMessage ?a k s) = ?t\<lparr>mailbox := pending (handleSendMessage ?a k s)\<rparr>"
    by (simp add: abs_server_def)
  have acc: "send_accepted ?a k s \<longleftrightarrow> 3 \<le> length args \<and> k \<in> ran (members ?t) \<and>
      subject_valid (subject_limit_of s) (sanitize (args ! 1)) \<and> args ! 2 \<noteq> []"
    using abs_username(2)[OF assms, of k] by (auto simp: send_accepted_def abs_valid numeral_eq_Suc)
  show ?thesis
  proof (cases "send_accepted ?a k s")
    case False
    then have "pending (handleSendMessage ?a k s) = pending s" by (simp add: pending_handleSend(1)[OF disp])
    then have "abs_server (handleSendMessage ?a k s) = ?t" unfolding same by (simp add: abs_server_def)
    with False acc show ?thesis by (auto simp: chat_command_def)
  next
    case True
    let ?m = "the_message ?a k s"
    let ?c = "if sanitize (args ! 0) = ''all'' then recipients_of ?m (getAllClients s)
        else if 0 < getUserSocket (sanitize (args ! 0)) s then [?m] else []"
    have m: "?m = \<lparr>msg_from = ?u, msg_to = sanitize (args ! 0), subject = sanitize (args ! 1),
        body = sanitize (args ! 2), timestamp = sysClock s\<rparr>"
      by (simp add: the_message_def numeral_eq_Suc)
    have "posts ?t ?m ?c" by (rule posts_recipients[OF valid]) (simp add: m)
    moreover have "pending (handleSendMessage ?a k s) = mailbox ?t @ take (10000 - length (mailbox ?t)) ?c"
      using True by (simp add: pending_handleSend(1)[OF disp] abs_server_def)
    moreover have "members ?t ?u = Some k" using True abs_username(1)[OF assms] by (simp add: send_accepted_def)
    ultimately show ?thesis
      using True unfolding acc by (intro chat_command_SEND) (simp_all add: m same)
  qed
qed

lemma abs_pong:
  assumes "server_inv s"
  shows "abs_server (handlePong k s) = abs_server s"
proof -
  have p: "dispatcher (handlePong k s) = dispatcher s" "bannedUsers (handlePong k s) = bannedUsers s"
    by (simp_all add: handlePong_def pong_commit_def Let_def)
  have "map_option socket (map_of (clients (handlePong k s)) v) = map_option socket (map_of (clients s) v)" for v
    by (simp add: handlePong_def pong_commit_def updateClientPong_def Let_def split: option.split)
  then show ?thesis using dispatching_cong(2)[OF p(1)] p(2) by (simp add: abs_server_def)
qed

text \<open>The table of commands, as \<open>initializeCommands\<close> fills it.\<close>

definition has_commands :: "server \<Rightarrow> bool" where
  "has_commands s \<longleftrightarrow> commands s = commands (initializeCommands s)"

lemma command_table: "has_commands s \<Longrightarrow> map_of (commands s) cmd =
    (if cmd = ''CONNECT'' then Some CmdConnect else if cmd = ''DISCONNECT'' then Some CmdDisconnect
     else if cmd = ''SEND'' then Some CmdSend else if cmd = ''PING'' then Some CmdPing
     else if cmd = ''PONG'' then Some CmdPong else if cmd = ''LIST_USERS'' then Some CmdListUsers
     else if cmd = ''GET_LOG'' then Some CmdGetLog else None)"
  by (simp add: has_commands_def initializeCommands_def um_of_def um_put_def)

section \<open>Properties\<close>

text \<open>C7: The command handlers implement the chat specification: in every state that keeps the
  invariant of the server, executing a line (any name, any arguments, any connection) has on
  the members, the bans and the mailbox exactly an effect the specification allows: who may
  join under which name, who leaves, who may write to whom, and that nothing else changes
  them. The specification knows no tables, queues or locks.\<close>

theorem commands_refine_chat:
  assumes "server_inv s" and "has_commands s"
  shows "chat_command (name_limit s) (subject_limit_of s) (sysClock s) cmd args k
    (abs_server s) (abs_server (executeCommand cmd args k s))"
proof -
  have skip: "chat_command n l now c args k t t" if "c \<notin> {''CONNECT'', ''DISCONNECT'', ''SEND''}" for n l now c t
    using that by (simp add: chat_command_def)
  have q: "abs_server (handlePing k s) = abs_server s" "abs_server (handleListUsers k s) = abs_server s"
    "abs_server (handleGetLog k s) = abs_server s"
    "abs_server (snd (send_on k m (logger_log l w s))) = abs_server s" for m l w
    by (rule abs_core, simp)+
  show ?thesis
    using abs_connect[OF assms(1)] abs_disconnect[OF assms(1)] abs_send[OF assms(1)] abs_pong[OF assms(1)] skip q
    by (simp add: executeCommand_def command_table[OF assms(2)] run_command_def)
qed

theorem commands_refine_chat_witness:
  "let s = initializeCommands (example_server [(''al'', online 4), (''bob'', online 7)])
   in mailbox (abs_server (executeCommand ''SEND'' [''bob'', ''hi'', ''text''] 4 s)) =
        [\<lparr>msg_from = ''al'', msg_to = ''bob'', subject = ''hi'', body = ''text'', timestamp = 0\<rparr>]"
proof -
  let ?e = "example_server [(''al'', online 4), (''bob'', online 7)]"
  let ?s = "initializeCommands ?e"
  have names: "name_ok ''al''" "name_ok ''bob''"
    by (simp_all add: name_ok_def username_char_def isalnum_def isalpha_def)
  have f: "clients ?s = clients ?e" "config ?s = config ?e" "pending ?s = []" "sysClock ?s = 0"
    by (simp_all add: initializeCommands_def pending_def) (simp add: example_server_def Dispatcher_new_def)
  have "server_inv ?e" using names by (simp add: server_inv_def um_valid_def)
  then have inv: "server_inv ?s" by (rule server_inv_keep) (simp_all add: initializeCommands_fields)
  have cmds: "has_commands ?s" by (simp add: has_commands_def initializeCommands_def)
  have s: "sanitize ''hi'' = ''hi''" "sanitize ''bob'' = ''bob''" "sanitize ''text'' = ''text''" by code_simp+
  have "isValidSubject ''hi'' ?s" using validity_cong(2)[OF f(2)] by (simp add: example_valid)
  then have valid: "subject_valid (subject_limit_of ?s) ''hi''" by (simp add: abs_valid)
  have mem: "members (abs_server ?s) = [''al'' \<mapsto> 4, ''bob'' \<mapsto> 7]"
    by (auto simp: abs_server_def f(1) fun_eq_iff)
  have al: "members (abs_server ?s) ''al'' = Some 4" "members (abs_server ?s) v = Some 4 \<Longrightarrow> v = ''al''" for v
    by (auto simp: mem split: if_splits)
  have "\<exists>copies. posts (abs_server ?s) \<lparr>msg_from = ''al'', msg_to = sanitize ''bob'',
        subject = sanitize ''hi'', body = sanitize ''text'', timestamp = sysClock ?s\<rparr> copies \<and>
      abs_server (executeCommand ''SEND'' [''bob'', ''hi'', ''text''] 4 ?s) =
       abs_server ?s\<lparr>mailbox := mailbox (abs_server ?s) @ take (10000 - length (mailbox (abs_server ?s))) copies\<rparr>"
    using valid by (intro chat_command_SEND_D[OF commands_refine_chat[OF inv cmds] al(1) _ _ al(2)]) (simp_all only: s, simp)
  then obtain copies where p: "posts (abs_server ?s) \<lparr>msg_from = ''al'', msg_to = ''bob'',
        subject = ''hi'', body = ''text'', timestamp = 0\<rparr> copies"
    and a: "abs_server (executeCommand ''SEND'' [''bob'', ''hi'', ''text''] 4 ?s) =
       abs_server ?s\<lparr>mailbox := mailbox (abs_server ?s) @ take (10000 - length (mailbox (abs_server ?s))) copies\<rparr>"
    unfolding s f by (elim exE conjE)
  have "copies = [\<lparr>msg_from = ''al'', msg_to = ''bob'', subject = ''hi'', body = ''text'', timestamp = 0\<rparr>]"
    using p by (simp add: posts_def mem)
  moreover have "mailbox (abs_server ?s) = []" by (simp add: abs_server_def f)
  ultimately show ?thesis unfolding Let_def a by simp
qed

end
