(* ===== verification/Message_Handler.thy ===== *)
theory Message_Handler
  imports Network_Stream Runtime_Config
begin

text \<open>
  The network half of the client: \<open>src/Client/MessageHandler.cpp\<close>. The handler keeps the
  messages received, in two lists; it is passed along with the process it runs in.
\<close>

section \<open>Data\<close>

record ReceivedMessage =
  rm_from :: string
  rm_subject :: string
  rm_body :: string
  rm_timestamp :: int
  receivedAt :: int
  isRead :: bool
  index :: int

datatype ServerEvent = NONE | MESSAGE | OK | ERROR_MSG | USERS | LOG | PING

record ServerEventData =
  ev_type :: ServerEvent
  ev_data :: string
  ev_args :: "string list"

record MessageHandler =
  mh_socketFd :: fd
  currentUsername :: string
  unreadMessages :: "ReceivedMessage list"
  readMessages :: "ReceivedMessage list"
  messageCounter :: int

definition MessageHandler_new :: "fd \<Rightarrow> MessageHandler" where
  "MessageHandler_new fd =
     \<lparr>mh_socketFd = fd, currentUsername = [], unreadMessages = [], readMessages = [], messageCounter = 0\<rparr>"

section \<open>Sending\<close>

definition sendCommand :: "string \<Rightarrow> MessageHandler \<Rightarrow> 'a process_scheme \<Rightarrow> bool \<times> 'a process_scheme" where
  "sendCommand cmd h p =
     (let (ok, p1) = send_on (mh_socketFd h) cmd p
      in if \<not> ok then (False, LOG_ERROR ''Failed to send command'' p1) else (True, p1))"

definition sendMessage ::
  "string \<Rightarrow> string \<Rightarrow> string \<Rightarrow> MessageHandler \<Rightarrow> 'a process_scheme \<Rightarrow> bool \<times> 'a process_scheme" where
  "sendMessage to subj text h p =
     (if \<not> isValidUsername to p \<and> to \<noteq> ''all''
      then (False, LOG_ERROR (''Invalid recipient: '' @ to) p)
      else if \<not> isValidSubject subj p then (False, LOG_ERROR ''Invalid subject'' p)
      else sendCommand (build ''SEND'' [to, subj, text]) h p)"

section \<open>Receiving\<close>

definition parseMessage :: "string \<Rightarrow> ServerEventData option" where
  "parseMessage raw =
     (let parsed = parse raw
      in if \<not> isValid parsed then None
         else if command parsed = ''MESSAGE'' \<and> argCount parsed \<ge> 4 then
           Some \<lparr>ev_type = MESSAGE, ev_data = [], ev_args = [arg parsed 0, arg parsed 1, arg parsed 2, arg parsed 3]\<rparr>
         else if command parsed = ''OK'' then
           Some \<lparr>ev_type = OK,
                 ev_data = (if argCount parsed > 0 then arg parsed 0 else ''Operation successful''), ev_args = []\<rparr>
         else if command parsed = ''ERROR'' then
           Some \<lparr>ev_type = ERROR_MSG,
                 ev_data = (if argCount parsed > 0 then arg parsed 0 else ''Unknown error''), ev_args = []\<rparr>
         else if command parsed = ''USERS'' \<and> argCount parsed \<ge> 1 then
           Some \<lparr>ev_type = USERS, ev_data = arg parsed 0, ev_args = []\<rparr>
         else if command parsed = ''LOG'' \<and> argCount parsed \<ge> 1 then
           Some \<lparr>ev_type = LOG, ev_data = arg parsed 0, ev_args = []\<rparr>
         else if command parsed = ''PING'' then
           Some \<lparr>ev_type = PING, ev_data = [], ev_args = []\<rparr>
         else None)"

text \<open>Called on events of type MESSAGE only, which have four arguments.\<close>

definition storeMessage :: "ServerEventData \<Rightarrow> 'a process_scheme \<Rightarrow> MessageHandler \<Rightarrow> MessageHandler" where
  "storeMessage ev p h =
     h\<lparr>unreadMessages := unreadMessages h @
         [\<lparr>rm_from = ev_args ev ! 0, rm_subject = ev_args ev ! 1, rm_body = ev_args ev ! 2,
           rm_timestamp = unixStringToTimestamp (ev_args ev ! 3) (sysClock p),
           receivedAt = sysClock p, isRead = False, index = messageCounter h\<rparr>],
       messageCounter := messageCounter h + 1\<rparr>"

text \<open>
  One pass of \<open>listen\<close>: the stream to go on with (if the loop goes on), the event given to
  the callback (if any), the new handler and process.
\<close>

definition listen_pass ::
  "netstream \<Rightarrow> MessageHandler \<Rightarrow> 'a process_scheme \<Rightarrow>
   netstream option \<times> ServerEventData option \<times> MessageHandler \<times> 'a process_scheme" where
  "listen_pass stream h p =
     (if \<not> connected stream then (None, None, h, p)
      else case ns_receive stream p of
        (None, stream1, p1) \<Rightarrow> (None, None, h, LOG_INFO ''Connection closed'' p1)
      | (Some raw, stream1, p1) \<Rightarrow>
          (case parseMessage raw of
             None \<Rightarrow> (Some stream1, None, h, p1)
           | Some ev \<Rightarrow>
               (if ev_type ev = MESSAGE then (Some stream1, Some ev, storeMessage ev p1 h, p1)
                else if ev_type ev = PING then
                  (Some stream1, None, h,
                   LOG_DEBUG ''PING received, PONG sent'' (snd (sendCommand (build ''PONG'' []) h p1)))
                else (Some stream1, Some ev, h, p1))))"

section \<open>Stored messages\<close>

definition getUnreadMessages :: "MessageHandler \<Rightarrow> ReceivedMessage list" where
  "getUnreadMessages h = unreadMessages h"

definition getUnreadCount :: "MessageHandler \<Rightarrow> int" where
  "getUnreadCount h = int (length (unreadMessages h))"

text \<open>Taking the element an iterator loop stops at out of a list.\<close>

definition erase_first :: "('a \<Rightarrow> bool) \<Rightarrow> 'a list \<Rightarrow> 'a list" where
  "erase_first P xs = takeWhile (\<lambda>x. \<not> P x) xs @ tl (dropWhile (\<lambda>x. \<not> P x) xs)"

definition readMessageByIndex :: "int \<Rightarrow> MessageHandler \<Rightarrow> ReceivedMessage option \<times> MessageHandler" where
  "readMessageByIndex i h =
     (case find (\<lambda>m. index m = i) (unreadMessages h) of
        Some m \<Rightarrow> (Some m, h\<lparr>readMessages := readMessages h @ [m\<lparr>isRead := True\<rparr>],
                            unreadMessages := erase_first (\<lambda>m. index m = i) (unreadMessages h)\<rparr>)
      | None \<Rightarrow> (find (\<lambda>m. index m = i) (readMessages h), h))"

definition find_message :: "int \<Rightarrow> MessageHandler \<Rightarrow> ReceivedMessage option" where
  "find_message i h =
     (case find (\<lambda>m. index m = i) (unreadMessages h) of
        Some m \<Rightarrow> Some m | None \<Rightarrow> find (\<lambda>m. index m = i) (readMessages h))"

definition reply_subject :: "string \<Rightarrow> string" where
  "reply_subject subj = (if take 4 subj = ''Re: '' then subj else ''Re: '' @ subj)"

definition replyToMessage ::
  "int \<Rightarrow> string \<Rightarrow> MessageHandler \<Rightarrow> 'a process_scheme \<Rightarrow> bool \<times> 'a process_scheme" where
  "replyToMessage originalIndex text h p =
     (case find_message originalIndex h of
        None \<Rightarrow> (False, p)
      | Some original \<Rightarrow> sendMessage (rm_from original) (reply_subject (rm_subject original)) text h p)"

section \<open>The message store\<close>

text \<open>Numbers are given in order and never twice; a message is in one list, by its read mark.\<close>

definition store_wf :: "MessageHandler \<Rightarrow> bool" where
  "store_wf h \<longleftrightarrow> distinct (map index (unreadMessages h @ readMessages h)) \<and>
     (\<forall>m\<in>set (unreadMessages h @ readMessages h). 0 \<le> index m \<and> index m < messageCounter h) \<and>
     (\<forall>m\<in>set (unreadMessages h). \<not> isRead m) \<and> (\<forall>m\<in>set (readMessages h). isRead m) \<and>
     0 \<le> messageCounter h"

lemma store_wf_new: "store_wf (MessageHandler_new fd)"
  by (simp add: store_wf_def MessageHandler_new_def)

lemma store_wf_store:
  assumes "store_wf h"
  shows "store_wf (storeMessage ev p h)"
proof -
  let ?u = "unreadMessages h" and ?r = "readMessages h" and ?c = "messageCounter h"
  from assms have wf: "distinct (map index (?u @ ?r))" "\<forall>m\<in>set (?u @ ?r). 0 \<le> index m \<and> index m < ?c"
    "\<forall>m\<in>set ?u. \<not> isRead m" "\<forall>m\<in>set ?r. isRead m" "0 \<le> ?c"
    unfolding store_wf_def by blast+
  have "?c \<notin> set (map index (?u @ ?r))"
  proof
    assume "?c \<in> set (map index (?u @ ?r))"
    then obtain m where "m \<in> set (?u @ ?r)" "index m = ?c" by (metis imageE set_map)
    with wf(2) show False by (metis less_irrefl)
  qed
  with wf(1) have "distinct (map index (unreadMessages (storeMessage ev p h) @ readMessages (storeMessage ev p h)))"
    by (simp add: storeMessage_def)
  moreover have "\<forall>m\<in>set (?u @ ?r). 0 \<le> index m \<and> index m < ?c + 1"
    using wf(2) by (metis add_strict_increasing2 less_irrefl zero_le_one zless_add1_eq)
  ultimately show ?thesis
    using wf(3-5) unfolding store_wf_def storeMessage_def by simp
qed

lemma erase_first_split:
  "find P xs = Some x \<Longrightarrow> \<exists>ys zs. xs = ys @ x # zs \<and> erase_first P xs = ys @ zs \<and> P x \<and> (\<forall>y\<in>set ys. \<not> P y)"
proof (induction xs)
  case (Cons a xs)
  show ?case
  proof (cases "P a")
    case True
    with Cons.prems show ?thesis by (intro exI[of _ "[]"] exI[of _ xs]) (auto simp: erase_first_def)
  next
    case False
    with Cons obtain ys zs where "xs = ys @ x # zs" "erase_first P xs = ys @ zs" "P x" "\<forall>y\<in>set ys. \<not> P y"
      by auto
    with False show ?thesis
      by (intro exI[of _ "a # ys"] exI[of _ zs]) (auto simp: erase_first_def)
  qed
qed simp

lemma store_wf_read:
  assumes "store_wf h"
  shows "store_wf (snd (readMessageByIndex i h))"
proof (cases "find (\<lambda>m. index m = i) (unreadMessages h)")
  case None
  with assms show ?thesis by (simp add: readMessageByIndex_def)
next
  case (Some m)
  from erase_first_split[OF this] obtain ys zs where s: "unreadMessages h = ys @ m # zs"
    "erase_first (\<lambda>m. index m = i) (unreadMessages h) = ys @ zs" by auto
  with Some assms show ?thesis by (auto simp: readMessageByIndex_def store_wf_def)
qed

lemma store_wf_listen: "store_wf h \<Longrightarrow> listen_pass ns h p = (r, ev, h', p') \<Longrightarrow> store_wf h'"
  by (auto simp: listen_pass_def store_wf_store split: if_splits option.splits prod.splits)

lemma find_unique:
  assumes "distinct (map index ms)" and "m \<in> set ms" and "index m = i"
  shows "find (\<lambda>m. index m = i) ms = Some m"
  using assms by (induction ms) auto

lemma reply_subject_idem: "reply_subject (reply_subject s) = reply_subject s"
  by (simp add: reply_subject_def)

lemma reply_subject_prefix: "take 4 (reply_subject s) = ''Re: ''"
  by (simp add: reply_subject_def)

lemma parseMessage_build:
  assumes "wf_fields (cmd, args)"
  shows "parseMessage (build cmd args) =
    (if cmd = ''MESSAGE'' \<and> 4 \<le> length args then Some \<lparr>ev_type = MESSAGE, ev_data = [], ev_args = take 4 args\<rparr>
     else if cmd = ''OK'' then Some \<lparr>ev_type = OK, ev_data = (if args \<noteq> [] then args ! 0 else ''Operation successful''), ev_args = []\<rparr>
     else if cmd = ''ERROR'' then Some \<lparr>ev_type = ERROR_MSG, ev_data = (if args \<noteq> [] then args ! 0 else ''Unknown error''), ev_args = []\<rparr>
     else if cmd = ''USERS'' \<and> args \<noteq> [] then Some \<lparr>ev_type = USERS, ev_data = args ! 0, ev_args = []\<rparr>
     else if cmd = ''LOG'' \<and> args \<noteq> [] then Some \<lparr>ev_type = LOG, ev_data = args ! 0, ev_args = []\<rparr>
     else if cmd = ''PING'' then Some \<lparr>ev_type = PING, ev_data = [], ev_args = []\<rparr> else None)"
proof -
  have t: "take 4 args = [args ! 0, args ! 1, args ! 2, args ! 3]" if "4 \<le> length args"
    using that by (auto simp: list_eq_iff_nth_eq nth_Cons' less_Suc_eq numeral_eq_Suc)
  show ?thesis
    unfolding parseMessage_def Let_def parse_build[OF assms] argCount_def arg_def
    by (auto simp: t Suc_le_eq)
qed

lemma erase_first_distinct:
  "distinct (map index ms) \<Longrightarrow> erase_first (\<lambda>m. index m = i) ms = filter (\<lambda>m. index m \<noteq> i) ms"
proof (induction ms)
  case (Cons a ms)
  show ?case
  proof (cases "index a = i")
    case True
    with Cons.prems have "\<forall>m\<in>set ms. index m \<noteq> i" by (auto simp: image_iff)
    then have "filter (\<lambda>m. index m \<noteq> i) ms = ms" by (simp add: filter_id_conv)
    with True show ?thesis by (simp add: erase_first_def)
  next
    case False
    with Cons show ?thesis by (simp add: erase_first_def)
  qed
qed (simp add: erase_first_def)

section \<open>Properties\<close>

text \<open>C31: Reading a stored message by its number. In a well-formed store an unread message is
  returned as it was received and moves to the end of the read ones, marked as read; a
  message already read is returned and nothing moves; an unknown number returns nothing and
  changes nothing. The store stays well-formed: each number belongs to one message.\<close>

theorem read_message_spec:
  assumes "store_wf h" and "readMessageByIndex i h = (r, h')"
  shows "store_wf h' \<and>
    (\<forall>m\<in>set (unreadMessages h). index m = i \<longrightarrow> r = Some m \<and>
       unreadMessages h' = filter (\<lambda>m. index m \<noteq> i) (unreadMessages h) \<and>
       readMessages h' = readMessages h @ [m\<lparr>isRead := True\<rparr>]) \<and>
    (\<forall>m\<in>set (readMessages h). index m = i \<longrightarrow> r = Some m \<and> h' = h) \<and>
    ((\<forall>m\<in>set (unreadMessages h @ readMessages h). index m \<noteq> i) \<longrightarrow> r = None \<and> h' = h)"
proof -
  let ?u = "unreadMessages h" and ?r = "readMessages h"
  have d: "distinct (map index ?u)" "distinct (map index ?r)" "index ` set ?u \<inter> index ` set ?r = {}"
    using assms(1) by (auto simp: store_wf_def)
  have none: "find (\<lambda>m. index m = i) ms = None \<longleftrightarrow> (\<forall>m\<in>set ms. index m \<noteq> i)" for ms
    by (auto simp: find_None_iff)
  have unread: "r = Some m \<and> unreadMessages h' = filter (\<lambda>m. index m \<noteq> i) ?u \<and> readMessages h' = ?r @ [m\<lparr>isRead := True\<rparr>]"
    if "m \<in> set ?u" "index m = i" for m
    using assms(2) find_unique[OF d(1) that] erase_first_distinct[OF d(1), of i]
    by (auto simp: readMessageByIndex_def)
  have read: "r = Some m \<and> h' = h" if "m \<in> set ?r" "index m = i" for m
  proof -
    have "\<forall>m\<in>set ?u. index m \<noteq> i" using that d(3) by blast
    then have "find (\<lambda>m. index m = i) ?u = None" by (simp add: none)
    with assms(2) find_unique[OF d(2) that] show ?thesis by (auto simp: readMessageByIndex_def)
  qed
  have "r = None \<and> h' = h" if "\<forall>m\<in>set (?u @ ?r). index m \<noteq> i"
  proof -
    have "find (\<lambda>m. index m = i) ?u = None" "find (\<lambda>m. index m = i) ?r = None" using that by (simp_all add: none)
    with assms(2) show ?thesis by (auto simp: readMessageByIndex_def)
  qed
  with unread read store_wf_read[OF assms(1), of i] assms(2) show ?thesis by auto
qed

definition example_store :: MessageHandler where
  "example_store = (let ev = \<lambda>b. \<lparr>ev_type = MESSAGE, ev_data = [], ev_args = [''al'', ''s'', b, ''0'']\<rparr>
     in storeMessage (ev ''two'') idle_process (storeMessage (ev ''one'') idle_process (MessageHandler_new 4)))"

theorem read_message_spec_witness:
  "map rm_body (unreadMessages (snd (readMessageByIndex 0 example_store))) = [''two'']"
proof -
  have wf: "store_wf example_store" by (simp add: example_store_def Let_def store_wf_store store_wf_new)
  obtain r h' where rd: "readMessageByIndex 0 example_store = (r, h')" by force
  from read_message_spec[OF wf rd] rd show ?thesis
    by (simp add: example_store_def storeMessage_def MessageHandler_new_def)
qed

text \<open>Replying answers the sender of the message with the given number, under its subject with
  one \<open>Re: \<close> in front, however many replies have gone back and forth; with no such message
  nothing is sent.\<close>

theorem reply_spec:
  assumes "store_wf h"
  shows "(\<forall>m\<in>set (unreadMessages h @ readMessages h). index m = i \<longrightarrow>
      replyToMessage i text h p = sendMessage (rm_from m) (reply_subject (rm_subject m)) text h p) \<and>
    ((\<forall>m\<in>set (unreadMessages h @ readMessages h). index m \<noteq> i) \<longrightarrow> replyToMessage i text h p = (False, p)) \<and>
    reply_subject (reply_subject subj) = reply_subject subj \<and>
    (take 4 subj \<noteq> ''Re: '' \<longrightarrow> reply_subject subj = ''Re: '' @ subj)"
proof -
  let ?u = "unreadMessages h" and ?r = "readMessages h"
  have d: "distinct (map index ?u)" "distinct (map index ?r)" "index ` set ?u \<inter> index ` set ?r = {}"
    using assms by (auto simp: store_wf_def)
  have "find_message i h = Some m" if "m \<in> set (?u @ ?r)" "index m = i" for m
  proof (cases "m \<in> set ?u")
    case True
    from find_unique[OF d(1) this that(2)] show ?thesis by (simp add: find_message_def)
  next
    case False
    then have m: "m \<in> set ?r" using that by simp
    then have "\<forall>x\<in>set ?u. index x \<noteq> i" using that(2) d(3) by blast
    then have "find (\<lambda>m. index m = i) ?u = None" by (auto simp: find_None_iff)
    with find_unique[OF d(2) m that(2)] show ?thesis by (simp add: find_message_def)
  qed
  moreover have "find_message i h = None" if "\<forall>m\<in>set (?u @ ?r). index m \<noteq> i"
    using that by (auto simp: find_message_def find_None_iff split: option.split)
  ultimately show ?thesis by (auto simp: replyToMessage_def reply_subject_idem) (simp_all add: reply_subject_def)
qed

theorem reply_spec_witness:
  "replyToMessage 1 ''ok'' example_store idle_process = sendMessage ''al'' ''Re: s'' ''ok'' example_store idle_process"
proof -
  have wf: "store_wf example_store" by (simp add: example_store_def Let_def store_wf_store store_wf_new)
  from reply_spec[OF wf, of 1 "''ok''" idle_process "''s''"] show ?thesis
    by (simp add: example_store_def storeMessage_def MessageHandler_new_def)
qed

end
