(* ===== verification/Client.thy ===== *)
theory Client
  imports Message_Handler
begin

text \<open>
  The client process and its connection: \<open>src/Client/Client.cpp\<close>. The last three fields are
  what the system calls of \<open>connect\<close> return.
\<close>

record client = process +
  serverAddress :: string
  serverPort :: int
  clientSocket :: fd
  isConnected :: bool
  username :: string
  messageHandler :: "MessageHandler option"
  listening :: bool
  newFd :: fd
  inetOk :: "string \<Rightarrow> bool"
  connectOk :: bool

lemma client_frame:
  fixes s t :: client
  assumes "process.more s = process.more t"
  shows "serverAddress s = serverAddress t" "serverPort s = serverPort t" "clientSocket s = clientSocket t"
    "isConnected s = isConnected t" "username s = username t" "messageHandler s = messageHandler t"
    "listening s = listening t" "newFd s = newFd t" "inetOk s = inetOk t" "connectOk s = connectOk t"
  using assms by (cases s; cases t; simp)+

lemmas client_log [simp, frame] = client_frame[OF logger_log_frame(13)]
lemmas client_close_frame [simp, frame] = client_frame[OF os_close_frame(13)]
lemmas client_send_on [simp, frame] = client_frame[OF send_on_frame(13)]

text \<open>The constructor, with the field initialisers of the class.\<close>

definition Client_new :: "string \<Rightarrow> int \<Rightarrow> process \<Rightarrow> client" where
  "Client_new addr prt p = LOG_INFO (''Client created for '' @ addr @ '':'' @ to_string prt)
     (process.extend p (client.fields addr prt (-1) False [] None False (-1) (\<lambda>_. True) True))"

text \<open>\<open>clientSocket.close()\<close> and \<open>clientSocket = Socket(fd)\<close>.\<close>

definition client_close :: "client \<Rightarrow> client" where
  "client_close c =
     (if clientSocket c \<ge> 0 then (os_close (clientSocket c) c)\<lparr>clientSocket := -1\<rparr> else c)"

definition client_assign :: "fd \<Rightarrow> client \<Rightarrow> client" where
  "client_assign fd c = (client_close c)\<lparr>clientSocket := fd\<rparr>"

definition Client_connect :: "string \<Rightarrow> client \<Rightarrow> bool \<times> string \<times> client" where
  "Client_connect user c =
     (if isConnected c then (False, ''Already connected'', c)
      else let fd = newFd c
      in if fd < 0 then
        (False, ''Socket creation failed'', LOG_ERROR ''Socket creation failed'' c)
      else let c1 = client_assign fd (c\<lparr>fdOpen := (fdOpen c)(fd := True)\<rparr>)
      in if \<not> inetOk c1 (serverAddress c1) then
        (let err = ''Invalid address: '' @ serverAddress c1
         in (False, err, client_close (LOG_ERROR err c1)))
      else if \<not> connectOk c1 then
        (False, ''Cannot connect to server'', client_close (LOG_ERROR ''Cannot connect to server'' c1))
      else let (sent, stream, c2) = ns_send (build ''CONNECT'' [user]) (NetworkStream (clientSocket c1)) c1
      in if \<not> sent then (False, ''Failed to send connection request'', client_close c2)
      else let (response, stream2, c3) = ns_receive stream c2
      in case response of
        None \<Rightarrow> (False, ''No response from server'', client_close c3)
      | Some raw \<Rightarrow>
          (let parsed = parse raw
           in if \<not> isValid parsed \<or> command parsed \<noteq> ''OK'' then
                (False,
                 (if isValid parsed \<and> command parsed = ''ERROR'' \<and> argCount parsed > 0
                  then arg parsed 0 else ''Connection refused''),
                 client_close c3)
              else
                (True, [], LOG_CONNECT (''Connected as '' @ user)
                   (c3\<lparr>username := user, isConnected := True,
                       messageHandler := Some ((MessageHandler_new (clientSocket c3))\<lparr>currentUsername := user\<rparr>)\<rparr>))))"

text \<open>
  The listener thread as a whole: the passes of \<open>listen\<close> until the connection ends, with the
  events the callback gets. Each pass takes at least a frame header off the socket.
\<close>

lemma receive_takes:
  assumes "ns_receive ns p = (Some raw, ns', p')"
  shows "socketFd ns' = socketFd ns" "length (rx p' (socketFd ns)) < length (rx p (socketFd ns))"
proof -
  obtain ok m q where d: "decodeMessage (socketFd ns) p = (ok, m, q)" by (metis prod_cases3)
  with assms have ok: "ok" "m = raw" "q = p'" "ns' = ns"
    by (auto simp: ns_receive_def split: if_splits)
  then have "fdOpen p (socketFd ns)"
    using d decodeMessage_closed[of p "socketFd ns"] by auto
  from decodeMessage_open[OF this d] ok obtain rest where
    r: "decode_bytes (rx p (socketFd ns)) = Some (raw, rest)" "p' = p\<lparr>rx := (rx p)(socketFd ns := rest)\<rparr>"
    by (auto split: option.splits)
  from ok show "socketFd ns' = socketFd ns" by simp
  from r(2) decode_bytes_bounds[OF r(1)]
  show "length (rx p' (socketFd ns)) < length (rx p (socketFd ns))" by simp
qed

lemma rx_sendCommand [simp, frame]: "rx (snd (sendCommand cmd h p)) = rx p"
  by (simp add: sendCommand_def Let_def case_prod_beta)

lemma listen_pass_takes:
  assumes "listen_pass ns h p = (Some ns', ev, h', p')"
  shows "socketFd ns' = socketFd ns" "length (rx p' (socketFd ns)) < length (rx p (socketFd ns))"
proof -
  obtain r ns1 p1 where recv: "ns_receive ns p = (r, ns1, p1)" by (metis prod_cases3)
  with assms obtain raw where "r = Some raw" "ns' = ns1" "rx p' = rx p1"
    by (auto simp: listen_pass_def Let_def split: if_splits option.splits)
  with receive_takes[of ns p raw ns1 p1] recv
  show "socketFd ns' = socketFd ns" "length (rx p' (socketFd ns)) < length (rx p (socketFd ns))" by auto
qed

function listen_loop ::
  "netstream \<Rightarrow> MessageHandler \<Rightarrow> 'a process_scheme \<Rightarrow> ServerEventData list \<times> MessageHandler \<times> 'a process_scheme" where
  "listen_loop ns h p =
     (case listen_pass ns h p of
        (None, ev, h1, p1) \<Rightarrow> ([], h1, p1)
      | (Some ns1, ev, h1, p1) \<Rightarrow>
          (let (evs, h2, p2) = listen_loop ns1 h1 p1
           in ((case ev of Some e \<Rightarrow> e # evs | None \<Rightarrow> evs), h2, p2)))"
  by pat_completeness auto
termination
proof (relation "measure (\<lambda>(ns, h, p). length (rx p (socketFd ns)))", goal_cases)
  case (2 ns h p x y ns1 ev z h1 p1)
  then have "listen_pass ns h p = (Some ns1, ev, h1, p1)" by simp
  from listen_pass_takes[OF this] show ?case by simp
qed simp

declare listen_loop.simps [simp del]

definition listen :: "MessageHandler \<Rightarrow> 'a process_scheme \<Rightarrow> ServerEventData list \<times> MessageHandler \<times> 'a process_scheme" where
  "listen h p = listen_loop (NetworkStream (mh_socketFd h)) h p"

definition startListening :: "client \<Rightarrow> client" where
  "startListening c = (if \<not> isConnected c \<or> messageHandler c = None then c else c\<lparr>listening := True\<rparr>)"

text \<open>
  \<open>disconnect\<close> joins the listener, which runs until the server closes; the first component
  holds the events the callback still gets.
\<close>

definition Client_disconnect :: "client \<Rightarrow> ServerEventData list \<times> client" where
  "Client_disconnect c =
     (if \<not> isConnected c then ([], c)
      else let c1 = (if clientSocket c \<ge> 0 then snd (send_on (clientSocket c) (build ''DISCONNECT'' []) c) else c);
               (evs, c2) = (case messageHandler c1 of
                  Some h \<Rightarrow> (if listening c1
                              then (let (evs, h1, c2) = listen h c1
                                    in (evs, c2\<lparr>messageHandler := Some h1, listening := False\<rparr>))
                              else ([], c1))
                | None \<Rightarrow> ([], c1))
           in (evs, LOG_DISCONNECT ''Disconnected''
                 ((client_close c2)\<lparr>isConnected := False, messageHandler := None\<rparr>)))"

text \<open>\<open>connect\<close> without the error text, and the destructor.\<close>

definition Client_connect1 :: "string \<Rightarrow> client \<Rightarrow> bool \<times> client" where
  "Client_connect1 user c = (let (ok, ignored, c1) = Client_connect user c in (ok, c1))"

definition Client_destroy :: "client \<Rightarrow> ServerEventData list \<times> client" where
  "Client_destroy c = Client_disconnect c"

section \<open>The connection invariant\<close>

text \<open>A connected client has an open socket and a handler on it; otherwise it holds neither.\<close>

definition client_wf :: "client \<Rightarrow> bool" where
  "client_wf c \<longleftrightarrow>
     (if isConnected c
      then clientSocket c \<ge> 0 \<and> fdOpen c (clientSocket c) \<and>
           (\<exists>h. messageHandler c = Some h \<and> mh_socketFd h = clientSocket c \<and> store_wf h)
      else clientSocket c = -1 \<and> messageHandler c = None)"

lemma ns_send_frame:
  assumes "ns_send m ns (p :: 'a process_scheme) = (ok, ns', p')"
  shows "process.more p' = process.more p" "fdOpen p' = fdOpen p"
  using assms by (auto simp: ns_send_def os_send_def Let_def split: if_splits)

lemma ns_receive_frame:
  assumes "ns_receive ns (p :: 'a process_scheme) = (r, ns', p')"
  shows "process.more p' = process.more p" "fdOpen p' = fdOpen p"
  using assms by (auto simp: ns_receive_def decodeMessage_def os_recv_def Let_def split: if_splits)

lemma client_close_simps [simp]:
  "clientSocket (client_close c) = (if clientSocket c \<ge> 0 then -1 else clientSocket c)"
  "isConnected (client_close c) = isConnected c" "messageHandler (client_close c) = messageHandler c"
  by (simp_all add: client_close_def)

lemma client_close_fdOpen [simp]: "fdOpen (client_close c) =
    (if clientSocket c \<ge> 0 then (fdOpen c)(clientSocket c := False) else fdOpen c)"
  by (simp add: client_close_def)

lemmas client_send_frame = client_frame[OF ns_send_frame(1)]
lemmas client_receive_frame = client_frame[OF ns_receive_frame(1)]

text \<open>A connection attempt that fails after the socket was made.\<close>

definition dropped :: "fd \<Rightarrow> client \<Rightarrow> bool" where
  "dropped fd c \<longleftrightarrow> \<not> isConnected c \<and> clientSocket c = -1 \<and> messageHandler c = None \<and> \<not> fdOpen c fd"

lemma dropped_close:
  "0 \<le> clientSocket c \<Longrightarrow> \<not> isConnected c \<Longrightarrow> messageHandler c = None \<Longrightarrow> dropped (clientSocket c) (client_close c)"
  by (simp add: dropped_def)

lemma Client_connect_cases:
  assumes "client_wf c" and "\<not> isConnected c" and "Client_connect user c = (ok, err, c')"
  shows "ok \<and> isConnected c' \<and> username c' = user \<and> clientSocket c' = newFd c \<and> 0 \<le> newFd c \<and> fdOpen c' (newFd c) \<and>
      (\<exists>h. messageHandler c' = Some h \<and> h = (MessageHandler_new (newFd c))\<lparr>currentUsername := user\<rparr>)
    \<or> \<not> ok \<and> 0 \<le> newFd c \<and> dropped (newFd c) c'
    \<or> \<not> ok \<and> newFd c < 0 \<and> \<not> isConnected c' \<and> clientSocket c' = -1 \<and> messageHandler c' = None"
proof (cases "newFd c < 0")
  case True
  with assms show ?thesis by (auto simp: Client_connect_def client_wf_def)
next
  case False
  define c1 where "c1 = client_assign (newFd c) (c\<lparr>fdOpen := (fdOpen c)(newFd c := True)\<rparr>)"
  have c: "clientSocket c = -1" "messageHandler c = None" using assms(1,2) by (simp_all add: client_wf_def)
  then have c1: "clientSocket c1 = newFd c" "\<not> isConnected c1" "messageHandler c1 = None" "fdOpen c1 (newFd c)"
    using assms(2) by (simp_all add: c1_def client_assign_def client_close_def)
  have drop1: "dropped (newFd c) (client_close (LOG_ERROR e c1))" for e
    using dropped_close[of "LOG_ERROR e c1"] c1 False by simp
  show ?thesis
  proof (cases "inetOk c1 (serverAddress c1) \<and> connectOk c1")
    case False
    with assms(2,3) drop1 \<open>\<not> newFd c < 0\<close> show ?thesis
      by (auto simp: Client_connect_def c1_def[symmetric] Let_def split: if_splits)
  next
    case True
    obtain sent st c2 where s: "ns_send (build ''CONNECT'' [user]) (NetworkStream (clientSocket c1)) c1 = (sent, st, c2)"
      by (metis prod_cases3)
    obtain r st2 c3 where rv: "ns_receive st c2 = (r, st2, c3)" by (metis prod_cases3)
    note f2 = client_send_frame[OF s] ns_send_frame(2)[OF s]
    note f3 = client_receive_frame[OF rv] ns_receive_frame(2)[OF rv]
    have drop2: "dropped (newFd c) (client_close c2)" and drop3: "dropped (newFd c) (client_close c3)"
      using dropped_close[of c2] dropped_close[of c3] c1 f2 f3 False by simp_all
    have conn: "Client_connect user c =
       (if \<not> sent then (False, ''Failed to send connection request'', client_close c2)
        else case r of None \<Rightarrow> (False, ''No response from server'', client_close c3)
        | Some raw \<Rightarrow> (let parsed = parse raw in
            if \<not> isValid parsed \<or> command parsed \<noteq> ''OK'' then
                (False, (if isValid parsed \<and> command parsed = ''ERROR'' \<and> argCount parsed > 0
                  then arg parsed 0 else ''Connection refused''), client_close c3)
            else (True, [], LOG_CONNECT (''Connected as '' @ user)
                   (c3\<lparr>username := user, isConnected := True,
                       messageHandler := Some ((MessageHandler_new (clientSocket c3))\<lparr>currentUsername := user\<rparr>)\<rparr>))))"
      using assms(2) False True s rv by (simp add: Client_connect_def c1_def[symmetric] Let_def)
    show ?thesis
      using assms(3) drop2 drop3 False c1 f2 f3 unfolding conn
      by (auto simp: Let_def split: if_splits option.splits)
  qed
qed

lemma listen_pass_keeps:
  assumes "listen_pass ns h (p :: 'a process_scheme) = (r, ev, h1, p1)"
  shows "process.more p1 = process.more p" "fdOpen p1 = fdOpen p" "mh_socketFd h1 = mh_socketFd h"
proof -
  have send: "process.more (snd (sendCommand m h q)) = process.more q" "fdOpen (snd (sendCommand m h q)) = fdOpen q"
    for m and q :: "'a process_scheme"
    by (simp_all add: sendCommand_def Let_def case_prod_beta)
  obtain m ns2 p2 where recv: "ns_receive ns p = (m, ns2, p2)" by (metis prod_cases3)
  show "process.more p1 = process.more p" "fdOpen p1 = fdOpen p" "mh_socketFd h1 = mh_socketFd h"
    using assms recv send ns_receive_frame[OF recv]
    by (auto simp: listen_pass_def storeMessage_def split: if_splits option.splits)
qed

lemma listen_keeps:
  "listen_loop ns h p = (evs, h', p') \<Longrightarrow> store_wf h \<Longrightarrow>
   store_wf h' \<and> mh_socketFd h' = mh_socketFd h \<and> process.more p' = process.more p \<and> fdOpen p' = fdOpen p"
proof (induction ns h p arbitrary: evs h' p' rule: listen_loop.induct)
  case (1 ns h p)
  obtain r ev h1 p1 where pass: "listen_pass ns h p = (r, ev, h1, p1)" by (metis prod_cases4)
  note p1 = listen_pass_keeps[OF pass]
  have wf: "store_wf h1" using store_wf_listen[OF "1.prems"(2) pass] .
  show ?case
  proof (cases r)
    case None
    with "1.prems" pass wf p1 show ?thesis by (simp add: listen_loop.simps)
  next
    case (Some ns1)
    obtain evs2 h2 p3 where rec: "listen_loop ns1 h1 p1 = (evs2, h2, p3)" by (metis prod_cases3)
    from "1.prems"(1) pass Some rec have "h' = h2" "p' = p3"
      by (simp_all add: listen_loop.simps[of ns h p])
    have "store_wf h2 \<and> mh_socketFd h2 = mh_socketFd h1 \<and> process.more p3 = process.more p1 \<and> fdOpen p3 = fdOpen p1"
      by (rule "1.IH"[OF pass[symmetric]]) (use Some rec wf in simp_all)
    with \<open>h' = h2\<close> \<open>p' = p3\<close> p1 show ?thesis by simp
  qed
qed

text \<open>What every event given to the callback satisfies.\<close>

lemma listen_events:
  assumes pass: "\<And>ns h p r e h' (p' :: 'a process_scheme). listen_pass ns h p = (r, Some e, h', p') \<Longrightarrow> P e"
  shows "listen_loop ns h (p :: 'a process_scheme) = (evs, h', p') \<Longrightarrow> e \<in> set evs \<Longrightarrow> P e"
proof (induction ns h p arbitrary: evs h' p' rule: listen_loop.induct)
  case (1 ns h p)
  obtain r ev h1 p1 where ps: "listen_pass ns h p = (r, ev, h1, p1)" by (metis prod_cases4)
  show ?case
  proof (cases r)
    case None
    with "1.prems" ps show ?thesis by (simp add: listen_loop.simps[of ns h p])
  next
    case (Some ns1)
    obtain evs2 h2 p3 where rec: "listen_loop ns1 h1 p1 = (evs2, h2, p3)" by (metis prod_cases3)
    have "P e" if "e \<in> set evs2"
      by (rule "1.IH"[OF ps[symmetric] _ _ _ _ that]) (use Some rec in simp_all)
    with "1.prems" ps Some rec pass[of ns h p] show ?thesis
      by (auto simp: listen_loop.simps[of ns h p] split: option.splits)
  qed
qed

lemma Client_disconnect_ends:
  assumes "client_wf c" and "Client_disconnect c = (evs, c')"
  shows "client_wf c' \<and> \<not> isConnected c' \<and> (isConnected c \<longrightarrow> \<not> fdOpen c' (clientSocket c)) \<and>
    (\<not> isConnected c \<longrightarrow> c' = c \<and> evs = [])"
proof (cases "isConnected c")
  case False
  with assms show ?thesis by (simp add: Client_disconnect_def)
next
  case True
  define c1 where "c1 = snd (send_on (clientSocket c) (build ''DISCONNECT'' []) c)"
  from assms(1) True obtain h where h: "messageHandler c = Some h" "store_wf h" "0 \<le> clientSocket c"
    by (auto simp: client_wf_def)
  obtain evs1 h1 c2 where l: "listen h c1 = (evs1, h1, c2)" by (metis prod_cases3)
  have c1: "process.more c1 = process.more c" by (simp add: c1_def)
  from listen_keeps[OF l[unfolded listen_def] h(2)] have "process.more c2 = process.more c" using c1 by simp
  note f = client_frame[OF this] and f1 = client_frame[OF c1]
  have d: "Client_disconnect c = (let (evs, c2) = (if listening c then (evs1, c2\<lparr>messageHandler := Some h1, listening := False\<rparr>) else ([], c1))
      in (evs, LOG_DISCONNECT ''Disconnected'' ((client_close c2)\<lparr>isConnected := False, messageHandler := None\<rparr>)))"
    using True h l by (simp add: Client_disconnect_def c1_def[symmetric] f1 Let_def)
  show ?thesis
    using assms(2) True h f f1 unfolding d
    by (auto simp: client_wf_def Let_def split: if_splits)
qed

lemma Client_destroy_closes:
  "client_wf c \<Longrightarrow> Client_destroy c = (evs, c') \<Longrightarrow> clientSocket c' = -1 \<and> (isConnected c \<longrightarrow> \<not> fdOpen c' (clientSocket c))"
  using Client_disconnect_ends[of c evs c'] by (auto simp: Client_destroy_def client_wf_def)

lemma Client_connect_wf:
  assumes "client_wf c" and "Client_connect user c = (ok, err, c')"
  shows "client_wf c' \<and> (ok \<longleftrightarrow> \<not> isConnected c \<and> isConnected c') \<and> (ok \<longrightarrow> username c' = user) \<and>
    (\<not> isConnected c \<longrightarrow> \<not> ok \<longrightarrow> clientSocket c' = -1 \<and> (0 \<le> newFd c \<longrightarrow> \<not> fdOpen c' (newFd c))) \<and>
    (isConnected c \<longrightarrow> c' = c \<and> err = ''Already connected'')"
proof (cases "isConnected c")
  case True
  with assms show ?thesis by (auto simp: Client_connect_def)
next
  case False
  have "store_wf ((MessageHandler_new fd)\<lparr>currentUsername := user\<rparr>)" for fd
    by (simp add: store_wf_def MessageHandler_new_def)
  with Client_connect_cases[OF assms(1) False assms(2)] False show ?thesis
    by (auto simp: client_wf_def dropped_def) (simp_all add: MessageHandler_new_def)
qed

lemma Client_connect_reply:
  assumes "client_wf c" and "\<not> isConnected c" and "0 \<le> newFd c" and "inetOk c (serverAddress c)" and "connectOk c"
    and "\<forall>data. sendResult c (newFd c) data = int (length data)"
    and "rx c (newFd c) = encodeMessage raw @ rest" and "sendable raw" and "Client_connect u c = (ok, err, c')"
  shows "(ok \<longleftrightarrow> isValid (parse raw) \<and> command (parse raw) = ''OK'')" 
    and "\<not> ok \<Longrightarrow> err = (if isValid (parse raw) \<and> command (parse raw) = ''ERROR'' \<and> argCount (parse raw) > 0
            then arg (parse raw) 0 else ''Connection refused'')"
    and "sent_to (newFd c) c' = sent_to (newFd c) c @ encodeMessage (build ''CONNECT'' [u])"
proof -
  let ?fd = "newFd c"
  let ?c1 = "c\<lparr>fdOpen := (fdOpen c)(?fd := True), clientSocket := ?fd\<rparr>"
  let ?c2 = "?c1\<lparr>wire := wire c @ [(?fd, encodeMessage (build ''CONNECT'' [u]))]\<rparr>"
  let ?c3 = "?c2\<lparr>rx := (rx c)(?fd := rest)\<rparr>"
  have "clientSocket c = -1" using assms(1,2) by (simp add: client_wf_def)
  then have c1: "client_assign ?fd (c\<lparr>fdOpen := (fdOpen c)(?fd := True)\<rparr>) = ?c1"
    by (simp add: client_assign_def client_close_def)
  have send: "ns_send (build ''CONNECT'' [u]) (NetworkStream ?fd) ?c1 = (True, NetworkStream ?fd, ?c2)"
    using assms(3,6) by (simp add: ns_send_def NetworkStream_def os_send_def Let_def)
  have recv: "ns_receive (NetworkStream ?fd) ?c2 = (Some raw, NetworkStream ?fd, ?c3)"
    using receive_frame[of ?c2 ?fd raw rest] assms(3,7,8) by simp
  have sent: "sent_to ?fd (client_close t) = sent_to ?fd t" "sent_to ?fd ?c3 = sent_to ?fd c @ encodeMessage (build ''CONNECT'' [u])"
    for t by (simp_all add: client_close_def sent_to_def)
  have conn: "Client_connect u c = (let parsed = parse raw in
            if \<not> isValid parsed \<or> command parsed \<noteq> ''OK'' then
                (False, (if isValid parsed \<and> command parsed = ''ERROR'' \<and> argCount parsed > 0
                  then arg parsed 0 else ''Connection refused''), client_close ?c3)
            else (True, [], LOG_CONNECT (''Connected as '' @ u)
                   (?c3\<lparr>username := u, isConnected := True,
                       messageHandler := Some ((MessageHandler_new (clientSocket ?c3))\<lparr>currentUsername := u\<rparr>)\<rparr>)))"
    unfolding Client_connect_def c1 Let_def
    using assms(2-5) send recv by simp
  have up: "sent_to ?fd (?c3\<lparr>username := a, isConnected := b, messageHandler := d\<rparr>) = sent_to ?fd ?c3" for a b d
    by (simp add: sent_to_def)
  show "(ok \<longleftrightarrow> isValid (parse raw) \<and> command (parse raw) = ''OK'')"
    "\<not> ok \<Longrightarrow> err = (if isValid (parse raw) \<and> command (parse raw) = ''ERROR'' \<and> argCount (parse raw) > 0
            then arg (parse raw) 0 else ''Connection refused'')"
    using assms(9) unfolding conn by (auto simp: Let_def split: if_splits)
  have "sent_to ?fd (snd (snd (Client_connect u c))) = sent_to ?fd ?c3"
    unfolding conn by (simp only: Let_def sent up sent_to_log split: if_split) (simp add: sent up)
  then show "sent_to ?fd c' = sent_to ?fd c @ encodeMessage (build ''CONNECT'' [u])"
    unfolding assms(9) sent(2) by simp
qed

section \<open>Properties\<close>

text \<open>C30: The life of a client connection. \<open>connect\<close> on a client that is not connected either
  succeeds, and then the client owns an open socket with a fresh handler on it and carries
  the name, or it fails, and then it is as unconnected as before, holds no socket, and the
  socket it made is closed again. On a connected client it fails and changes nothing.\<close>

theorem client_connect_spec:
  assumes "client_wf c" and "Client_connect user c = (ok, err, c')"
  shows "client_wf c' \<and> (ok \<longleftrightarrow> \<not> isConnected c \<and> isConnected c') \<and> (ok \<longrightarrow> username c' = user) \<and>
    (\<not> isConnected c \<longrightarrow> \<not> ok \<longrightarrow> clientSocket c' = -1 \<and> (0 \<le> newFd c \<longrightarrow> \<not> fdOpen c' (newFd c))) \<and>
    (isConnected c \<longrightarrow> c' = c \<and> err = ''Already connected'')"
  by (rule Client_connect_wf[OF assms])

definition example_client :: client where
  "example_client = (Client_new ''127.0.0.1'' 8080 idle_process)\<lparr>newFd := 3\<rparr>"

lemma example_client_wf: "client_wf example_client" "\<not> isConnected example_client"
  by (simp_all add: client_wf_def example_client_def Client_new_def client.defs process.defs)

theorem client_connect_spec_witness:
  "let c = example_client\<lparr>connectOk := False\<rparr>; (ok, err, c') = Client_connect ''al'' c
   in \<not> ok \<and> clientSocket c' = -1 \<and> \<not> fdOpen c' 3"
proof -
  let ?c = "example_client\<lparr>connectOk := False\<rparr>"
  obtain ok err c' where r: "Client_connect ''al'' ?c = (ok, err, c')" by (metis prod_cases3)
  have wf: "client_wf ?c" "\<not> isConnected ?c" "newFd ?c = 3"
    using example_client_wf by (simp_all add: client_wf_def) (simp add: example_client_def)
  from r wf(2,3) have "\<not> ok"
    by (auto simp: Client_connect_def client_assign_def client_close_def Let_def split: if_splits)
  with client_connect_spec[OF wf(1) r] r wf show ?thesis by simp
qed

text \<open>\<open>disconnect\<close> on a connected client closes its socket, drops its handler and leaves it
  unconnected, whatever bytes are still to come: the listener it waits for reads a finite
  sequence of frames. On an unconnected client it does nothing.\<close>

theorem client_disconnect_spec:
  assumes "client_wf c" and "Client_disconnect c = (evs, c')"
  shows "client_wf c' \<and> \<not> isConnected c' \<and> (isConnected c \<longrightarrow> \<not> fdOpen c' (clientSocket c)) \<and>
    (\<not> isConnected c \<longrightarrow> c' = c \<and> evs = [])"
  by (rule Client_disconnect_ends[OF assms])

theorem client_disconnect_spec_witness:
  "Client_disconnect example_client = ([], example_client)"
proof -
  obtain evs c' where r: "Client_disconnect example_client = (evs, c')" by force
  with client_disconnect_spec[OF example_client_wf(1) r] example_client_wf(2) show ?thesis by simp
qed

end
