(* ===== verification/Client_UI.thy ===== *)
theory Client_UI
  imports Client
begin

text \<open>
  The terminal interface of the client: \<open>src/Client/ClientUI.cpp\<close>. Two threads share its
  state: the one that runs the menu and the listener, which calls \<open>onServerEvent\<close>. The menu
  thread is cut into steps where it waits (for a line, for an answer, for Enter), and a
  schedule says which thread makes the next step. Inside a step the menu thread runs with
  \<open>inCommand\<close> set, when the listener only stores messages and queues events, or it looks at
  \<open>lastReceivedEvent\<close> under the mutex the listener takes to set it.
\<close>

section \<open>State\<close>

datatype MenuCommand = MenuSend bool | MenuUnread | MenuRead | MenuUsers | MenuLog

text \<open>The field \<open>uninitInt\<close> is what a local variable of type \<open>int\<close> holds before it is set.\<close>

record ui =
  the_client :: client
  ui_serverIp :: string
  ui_serverPort :: int
  menu :: "(string, MenuCommand) umap"
  inCommand :: bool
  pendingEvents :: "ServerEventData list"
  lastReceivedEvent :: ServerEvent
  uninitInt :: int

definition ClientUI_new :: "client \<Rightarrow> string \<Rightarrow> int \<Rightarrow> int \<Rightarrow> ui" where
  "ClientUI_new c ip prt junk =
     \<lparr>the_client = c, ui_serverIp = ip, ui_serverPort = prt,
      menu = um_of [(''1'', MenuSend False), (''2'', MenuUnread), (''3'', MenuRead),
                    (''4'', MenuUsers), (''5'', MenuSend True), (''6'', MenuLog)],
      inCommand = False, pendingEvents = [], lastReceivedEvent = NONE, uninitInt = junk\<rparr>"

definition on_client :: "(client \<Rightarrow> client) \<Rightarrow> ui \<Rightarrow> ui" where
  "on_client f u = u\<lparr>the_client := f (the_client u)\<rparr>"

abbreviation "say s \<equiv> on_client (print s)"

definition read_line :: "ui \<Rightarrow> string \<times> ui" where
  "read_line u = (let (l, i) = getline (cin (the_client u)) in (l, on_client (\<lambda>c. c\<lparr>cin := i\<rparr>) u))"

section \<open>Display\<close>

definition clearScreen :: "ui \<Rightarrow> ui" where
  "clearScreen u = say (ESC # ''[2J'' @ ESC # ''[1;1H'') u"

definition printHeader :: "ui \<Rightarrow> ui" where
  "printHeader u = (let u1 = clearScreen u in
     say (BRIGHT_CYAN @ ''========================================'' @ [NL]
       @ ''   MESSAGING CLIENT'' @ [NL]
       @ ''========================================'' @ RESET @ [NL]
       @ ''Server: '' @ ui_serverIp u1 @ '':'' @ to_string (ui_serverPort u1) @ [NL, NL]) u1)"

definition printError :: "string \<Rightarrow> ui \<Rightarrow> ui" where
  "printError msg u = say (BRIGHT_RED @ ''[ERROR] '' @ RESET @ msg @ [NL]) u"

definition printSuccess :: "string \<Rightarrow> ui \<Rightarrow> ui" where
  "printSuccess msg u = say (BRIGHT_GREEN @ ''[OK] '' @ RESET @ msg @ [NL]) u"

definition printMenu :: "ui \<Rightarrow> ui" where
  "printMenu u =
     say ([NL] @ BRIGHT_CYAN @ username (the_client u) @ RESET
       @ '' - Connected to '' @ CYAN @ ui_serverIp u @ '':'' @ to_string (ui_serverPort u) @ RESET @ [NL]
       @ [NL] @ BRIGHT_MAGENTA @ ''=== MENU ==='' @ RESET @ [NL]
       @ ''1. Send a message'' @ [NL]
       @ ''2. Unread messages'' @ [NL]
       @ ''3. Read a message'' @ [NL]
       @ ''4. Online users'' @ [NL]
       @ ''5. Broadcast'' @ [NL]
       @ ''6. Server logs'' @ [NL]
       @ BRIGHT_RED @ ''7. Quit'' @ RESET @ [NL]
       @ YELLOW @ ''$ '' @ RESET) u"

definition promptAndWait :: "ui \<Rightarrow> ui" where
  "promptAndWait u =
     (let u1 = say ([NL] @ GRAY @ ''Press Enter to continue...'' @ RESET) u;
          u2 = on_client (\<lambda>c. c\<lparr>cin := istream_get (cin c)\<rparr>) u1
      in clearScreen u2)"

definition printUserList :: "string \<Rightarrow> ui \<Rightarrow> ui" where
  "printUserList userListData u =
     (let users = split userListData '','';
          u1 = say (BRIGHT_GREEN @ ''=== Users ('' @ to_string (int (length users)) @ '') ==='' @ RESET @ [NL]) u
      in fold (\<lambda>user u.
           if user = username (the_client u)
           then say (''  '' @ BRIGHT_YELLOW @ ''* '' @ user @ '' (You)'' @ RESET @ [NL]) u
           else say (''  '' @ user @ [NL]) u) users u1)"

section \<open>Connecting\<close>

definition promptAndConnect :: "ui \<Rightarrow> bool \<times> ui" where
  "promptAndConnect u =
     (let u1 = printHeader u;
          (name, u2) = read_line (say (YELLOW @ ''Username: '' @ RESET) u1)
      in if \<not> isValidUsername name (the_client u2)
         then (False, printError ''Invalid name (alphanumeric and underscore, max 16 characters)'' u2)
         else let (ok, errorMsg, c) = Client_connect name (the_client u2);
                  u3 = u2\<lparr>the_client := c\<rparr>
         in if \<not> ok
            then (False, printError (if errorMsg = [] then ''Connection failed'' else errorMsg) u3)
            else (True, printSuccess ''Connected!'' u3))"

section \<open>Events\<close>

text \<open>Both displays index \<open>args\<close>; a MESSAGE event has four arguments (\<open>event_ok\<close> below).\<close>

definition displayEvent :: "ServerEventData \<Rightarrow> ui \<Rightarrow> ui" where
  "displayEvent event u =
     (case ev_type event of
        MESSAGE \<Rightarrow> say ([NL] @ BRIGHT_YELLOW @ ''New Message: ''
                     @ ev_args event ! 0 @ '' - '' @ ev_args event ! 1 @ RESET @ [NL] @ ''$ '') u
      | OK \<Rightarrow> say ([NL] @ BRIGHT_GREEN @ ''[OK] '' @ RESET @ ev_data event @ [NL] @ ''$ '') u
      | ERROR_MSG \<Rightarrow> say ([NL] @ BRIGHT_RED @ ''[ERROR] '' @ RESET @ ev_data event @ [NL] @ ''$ '') u
      | USERS \<Rightarrow> say ''$ '' (printUserList (ev_data event) (say [NL] u))
      | LOG \<Rightarrow> say (ev_data event @ [NL] @ ''$ '')
                 (say ([NL] @ BRIGHT_CYAN @ ''=== LOG ==='' @ RESET @ [NL]) u)
      | _ \<Rightarrow> u)"

definition onServerEvent :: "ServerEventData \<Rightarrow> ui \<Rightarrow> ui" where
  "onServerEvent event u =
     (if inCommand u then
        (if ev_type event \<noteq> OK then u\<lparr>pendingEvents := pendingEvents u @ [event]\<rparr> else u)
      else (displayEvent event u)\<lparr>lastReceivedEvent := ev_type event\<rparr>)"

definition display_pending :: "ServerEventData \<Rightarrow> ui \<Rightarrow> ui" where
  "display_pending event u =
     (case ev_type event of
        MESSAGE \<Rightarrow> say (BRIGHT_GREEN @ ''New message from ''
                     @ ev_args event ! 0 @ '' - '' @ ev_args event ! 1 @ RESET @ [NL]) u
      | ERROR_MSG \<Rightarrow> say (BRIGHT_RED @ ''[ERROR] '' @ RESET @ ev_data event @ [NL]) u
      | USERS \<Rightarrow> printUserList (ev_data event) u
      | LOG \<Rightarrow> say (ev_data event @ [NL]) (say (BRIGHT_CYAN @ ''=== LOG ==='' @ RESET @ [NL]) u)
      | _ \<Rightarrow> u)"

definition displayPendingEvents :: "ui \<Rightarrow> ui" where
  "displayPendingEvents u =
     (if pendingEvents u = [] then u
      else (fold display_pending (pendingEvents u)
              (say ([NL] @ GRAY @ ''--- While you were busy ---'' @ RESET @ [NL]) u))\<lparr>pendingEvents := []\<rparr>)"

section \<open>The commands of the menu\<close>

text \<open>Where the menu thread waits. \<open>Pausing b\<close>: for Enter, after a command (\<open>b\<close>) or an invalid choice.\<close>

datatype ui_pc = AtMenu | Waiting ServerEvent int | Pausing bool | Finished

definition cmdSendMessage :: "bool \<Rightarrow> ui \<Rightarrow> ui" where
  "cmdSendMessage bcast u =
     (case messageHandler (the_client u) of
        None \<Rightarrow> u
      | Some handler \<Rightarrow>
          (let (to, u1) = (if bcast then (''all'', say (BRIGHT_MAGENTA @ ''Sending to all'' @ RESET @ [NL]) u)
                           else read_line (say ''Recipient: '' u));
               (subj, u2) = read_line (say ''Subject: '' u1);
               (text_body, u3) = read_line (say ''Message: '' u2);
               (ok, c) = sendMessage to subj text_body handler (the_client u3);
               u4 = u3\<lparr>the_client := c\<rparr>
           in if \<not> ok then printError ''Failed to send'' u4 else u4))"

definition cmdListUnread :: "ui \<Rightarrow> ui" where
  "cmdListUnread u =
     (case messageHandler (the_client u) of
        None \<Rightarrow> u
      | Some handler \<Rightarrow>
          (let messages = getUnreadMessages handler
           in if messages = [] then say (YELLOW @ ''No unread messages.'' @ RESET @ [NL]) u
              else fold (\<lambda>msg u.
                     say ('' | '' @ rm_subject msg @ [NL])
                       (on_client (print_setw 12 (rm_from msg))
                         (say (CYAN @ ''['' @ to_string (index msg) @ '']'' @ RESET @ '' From: '') u)))
                   messages
                   (say ([NL] @ BRIGHT_MAGENTA @ ''=== Unread messages ('' @ to_string (int (length messages))
                      @ '') ==='' @ RESET @ [NL]) u)))"

definition read_index :: "ui \<Rightarrow> int \<times> ui" where
  "read_index u =
     (let (n, i) = istream_int (cin (the_client u))
      in (case n of Some v \<Rightarrow> v | None \<Rightarrow> uninitInt u,
          on_client (\<lambda>c. c\<lparr>cin := istream_ignore i\<rparr>) u))"

definition message_view :: "int \<Rightarrow> ReceivedMessage \<Rightarrow> client \<Rightarrow> string" where
  "message_view i msg c =
     [NL] @ BRIGHT_CYAN @ ''=== Message #'' @ to_string i @ '' ==='' @ RESET @ [NL]
       @ ''From: '' @ rm_from msg @ [NL]
       @ ''Subject: '' @ rm_subject msg @ [NL]
       @ ''Date: '' @ formatTimestamp (rm_timestamp msg) c @ [NL]
       @ ''---'' @ [NL] @ rm_body msg @ [NL]
       @ [NL] @ ''[r] Reply | [Enter] Back: ''"

definition cmdReadMessage :: "ui \<Rightarrow> ui" where
  "cmdReadMessage u =
     (case messageHandler (the_client u) of
        None \<Rightarrow> u
      | Some handler \<Rightarrow>
          (let (i, u1) = read_index (say ''Index: '' u)
           in case readMessageByIndex i handler of
                (None, _) \<Rightarrow> printError ''Message not found'' u1
              | (Some msg, handler1) \<Rightarrow>
                  (let u2 = on_client (\<lambda>c. c\<lparr>messageHandler := Some handler1\<rparr>) u1;
                       (action, u4) = read_line (say (message_view i msg (the_client u2)) u2)
                   in if action = ''r'' \<or> action = ''R'' then
                        (let (reply, u5) = read_line (say ''Reply: '' u4)
                         in if reply \<noteq> []
                            then on_client (\<lambda>c. snd (replyToMessage i reply handler1 c)) u5
                            else u5)
                      else u4)))"

text \<open>\<open>waitForResponse\<close>: its start, and one turn of its loop (with its end). Times in nanoseconds.\<close>

definition wait_start :: "ServerEvent \<Rightarrow> ui \<Rightarrow> ui_pc \<times> ui" where
  "wait_start expected u = (Waiting expected (steadyClock (the_client u)), u\<lparr>inCommand := False\<rparr>)"

definition response_timeout_ms :: int where "response_timeout_ms = 3000"

definition wait_poll :: "ServerEvent \<Rightarrow> int \<Rightarrow> ui \<Rightarrow> ui_pc \<times> ui" where
  "wait_poll expected start u =
     (if tdiv (steadyClock (the_client u) - start) 1000000 > response_timeout_ms
      then (Pausing True, u\<lparr>inCommand := True\<rparr>)
      else if lastReceivedEvent u = expected
      then (Pausing True, u\<lparr>lastReceivedEvent := NONE, inCommand := True\<rparr>)
      else (Waiting expected start, on_client (sleep_ns 50000000) u))"

text \<open>\<open>cmdListUsers\<close> and \<open>cmdGetLog\<close>, up to the wait.\<close>

definition cmdListUsers :: "ui \<Rightarrow> ui_pc \<times> ui" where
  "cmdListUsers u =
     (case messageHandler (the_client u) of
        None \<Rightarrow> (Pausing True, u)
      | Some handler \<Rightarrow> wait_start USERS
          (on_client (\<lambda>c. snd (sendCommand (build ''LIST_USERS'' []) handler c)) u))"

definition cmdGetLog :: "ui \<Rightarrow> ui_pc \<times> ui" where
  "cmdGetLog u =
     (case messageHandler (the_client u) of
        None \<Rightarrow> (Pausing True, u)
      | Some handler \<Rightarrow> wait_start LOG
          (on_client (\<lambda>c. snd (sendCommand (build ''GET_LOG'' []) handler c)) u))"

definition run_menu :: "MenuCommand \<Rightarrow> ui \<Rightarrow> ui_pc \<times> ui" where
  "run_menu cmd u =
     (case cmd of
        MenuSend bcast \<Rightarrow> (Pausing True, cmdSendMessage bcast u)
      | MenuUnread \<Rightarrow> (Pausing True, cmdListUnread u)
      | MenuRead \<Rightarrow> (Pausing True, cmdReadMessage u)
      | MenuUsers \<Rightarrow> cmdListUsers u
      | MenuLog \<Rightarrow> cmdGetLog u)"

section \<open>The main loop\<close>

text \<open>The top of the loop: the menu is shown and events may come.\<close>

definition show_menu :: "ui \<Rightarrow> ui_pc \<times> ui" where
  "show_menu u = (AtMenu, (printMenu u)\<lparr>inCommand := False\<rparr>)"

text \<open>The choice "7": the listener runs until the connection ends, then the client is closed.\<close>

definition quit :: "ui \<Rightarrow> ui" where
  "quit u =
     (let u1 = say (YELLOW @ ''Disconnecting...'' @ RESET @ [NL]) u;
          (evs, c) = Client_disconnect (the_client u1)
      in fold onServerEvent evs (u1\<lparr>the_client := c\<rparr>))"

definition menu_choice :: "ui \<Rightarrow> ui_pc \<times> ui" where
  "menu_choice u =
     (let (choice, u1) = read_line u;
          u2 = clearScreen (u1\<lparr>inCommand := True\<rparr>)
      in if choice = ''7'' then (Finished, quit u2)
         else (case map_of (menu u2) choice of
                 Some cmd \<Rightarrow> run_menu cmd u2
               | None \<Rightarrow> (Pausing False, printError ''Invalid choice'' u2)))"

definition user_step :: "ui_pc \<Rightarrow> ui \<Rightarrow> ui_pc \<times> ui" where
  "user_step pc u =
     (case pc of
        AtMenu \<Rightarrow> menu_choice u
      | Waiting expected start \<Rightarrow> wait_poll expected start u
      | Pausing known \<Rightarrow>
          (let u1 = promptAndWait u in show_menu (if known then displayPendingEvents u1 else u1))
      | Finished \<Rightarrow> (Finished, u))"

text \<open>The start of \<open>run\<close>; \<open>None\<close>: it returns false.\<close>

definition ui_start :: "ui \<Rightarrow> ui_pc option \<times> ui" where
  "ui_start u =
     (let (ok, u1) = promptAndConnect u
      in if \<not> ok then (None, u1)
         else let (pc, u2) = show_menu (on_client startListening (clearScreen u1)) in (Some pc, u2))"

text \<open>One pass of the listener thread, with its callback; the thread ends with its loop.\<close>

definition listener_step :: "ui \<Rightarrow> ui" where
  "listener_step u =
     (if \<not> listening (the_client u) then u
      else (case messageHandler (the_client u) of
        None \<Rightarrow> u
      | Some h \<Rightarrow>
          (case listen_pass (NetworkStream (mh_socketFd h)) h (the_client u) of
             (stream, ev, h1, c) \<Rightarrow>
               (let u1 = u\<lparr>the_client := c\<lparr>messageHandler := Some h1, listening := (stream \<noteq> None)\<rparr>\<rparr>
                in case ev of None \<Rightarrow> u1 | Some e \<Rightarrow> onServerEvent e u1))))"

datatype ui_thread = User | Listener

fun ui_step :: "ui_thread \<Rightarrow> ui_pc \<times> ui \<Rightarrow> ui_pc \<times> ui" where
  "ui_step User (pc, u) = user_step pc u"
| "ui_step Listener (pc, u) = (pc, listener_step u)"

definition ui_run :: "ui_thread list \<Rightarrow> ui_pc \<times> ui \<Rightarrow> ui_pc \<times> ui" where
  "ui_run ts st = fold ui_step ts st"

section \<open>What a step may change\<close>

lemma on_client_simps [simp]:
  "the_client (on_client f u) = f (the_client u)" "ui_serverIp (on_client f u) = ui_serverIp u"
  "ui_serverPort (on_client f u) = ui_serverPort u" "menu (on_client f u) = menu u"
  "inCommand (on_client f u) = inCommand u" "pendingEvents (on_client f u) = pendingEvents u"
  "lastReceivedEvent (on_client f u) = lastReceivedEvent u" "uninitInt (on_client f u) = uninitInt u"
  by (simp_all add: on_client_def)

text \<open>Steps that only print, read or send: the same interface on a client with the same fields.\<close>

definition quiet :: "ui \<Rightarrow> ui \<Rightarrow> bool" where
  "quiet u v \<longleftrightarrow> process.more (the_client v) = process.more (the_client u) \<and>
     fdOpen (the_client v) = fdOpen (the_client u) \<and> inCommand v = inCommand u \<and>
     pendingEvents v = pendingEvents u \<and> lastReceivedEvent v = lastReceivedEvent u \<and> menu v = menu u"

lemma quiet_refl [simp]: "quiet u u"
  by (simp add: quiet_def)

lemma quiet_trans: "quiet u v \<Longrightarrow> quiet v w \<Longrightarrow> quiet u w"
  by (simp add: quiet_def)

lemma quiet_on_client:
  "(\<And>c. process.more (f c) = process.more c \<and> fdOpen (f c) = fdOpen c) \<Longrightarrow> quiet u v \<Longrightarrow> quiet u (on_client f v)"
  by (simp add: quiet_def)

lemma quiet_say [intro]: "quiet u v \<Longrightarrow> quiet u (say s v)"
  by (rule quiet_on_client) simp_all

lemma quiet_cin [intro]: "quiet u v \<Longrightarrow> quiet u (on_client (\<lambda>c. c\<lparr>cin := i c\<rparr>) v)"
  by (rule quiet_on_client) simp_all

lemma quiet_read: "read_line v = (l, w) \<Longrightarrow> quiet u v \<Longrightarrow> quiet u w"
  by (auto simp: read_line_def split: prod.splits)

lemma quiet_ask: "read_line (say s v) = (l, w) \<Longrightarrow> quiet u v \<Longrightarrow> quiet u w"
  using quiet_read quiet_say by blast

lemma quiet_fold: "(\<And>x v. quiet u v \<Longrightarrow> quiet u (f x v)) \<Longrightarrow> quiet u v \<Longrightarrow> quiet u (fold f xs v)"
  by (induction xs arbitrary: v) simp_all

lemma send_keeps:
  "process.more (snd (sendCommand m h p)) = process.more p" "fdOpen (snd (sendCommand m h p)) = fdOpen p"
  by (simp_all add: sendCommand_def Let_def case_prod_beta)

lemma sendMessage_keeps:
  "process.more (snd (sendMessage to x t h p)) = process.more p" "fdOpen (snd (sendMessage to x t h p)) = fdOpen p"
  by (simp_all add: sendMessage_def send_keeps)

lemma replyToMessage_keeps:
  "process.more (snd (replyToMessage i t h p)) = process.more p" "fdOpen (snd (replyToMessage i t h p)) = fdOpen p"
  by (simp_all add: replyToMessage_def sendMessage_keeps split: option.split)

lemma quiet_display [intro]:
  "quiet u v \<Longrightarrow> quiet u (clearScreen v)" "quiet u v \<Longrightarrow> quiet u (printError m v)"
  "quiet u v \<Longrightarrow> quiet u (printSuccess m v)" "quiet u v \<Longrightarrow> quiet u (printMenu v)"
  "quiet u v \<Longrightarrow> quiet u (printHeader v)" "quiet u v \<Longrightarrow> quiet u (promptAndWait v)"
  "quiet u v \<Longrightarrow> quiet u (printUserList d v)"
proof -
  show c: "quiet u v \<Longrightarrow> quiet u (clearScreen v)" for v by (auto simp: clearScreen_def)
  show "quiet u v \<Longrightarrow> quiet u (printError m v)" "quiet u v \<Longrightarrow> quiet u (printSuccess m v)"
    "quiet u v \<Longrightarrow> quiet u (printMenu v)" "quiet u v \<Longrightarrow> quiet u (printHeader v)"
    using c by (auto simp: printError_def printSuccess_def printMenu_def printHeader_def Let_def)
  show "quiet u v \<Longrightarrow> quiet u (promptAndWait v)"
    unfolding promptAndWait_def Let_def by (intro c quiet_cin quiet_say)
  show "quiet u v \<Longrightarrow> quiet u (printUserList d v)"
    unfolding printUserList_def Let_def by (intro quiet_fold) auto
qed

lemma quiet_events: "quiet u v \<Longrightarrow> quiet u (displayEvent e v)" "quiet u v \<Longrightarrow> quiet u (display_pending e v)"
  by (auto simp: displayEvent_def display_pending_def split: ServerEvent.split)

lemma quiet_cmds:
  "quiet u v \<Longrightarrow> quiet u (cmdSendMessage b v)" "quiet u v \<Longrightarrow> quiet u (cmdListUnread v)"
proof -
  assume q: "quiet u v"
  show "quiet u (cmdListUnread v)"
    using q unfolding cmdListUnread_def Let_def
    by (auto split: option.split intro!: quiet_fold quiet_on_client simp: print_setw_def)
  show "quiet u (cmdSendMessage b v)"
  proof (cases "messageHandler (the_client v)")
    case (Some h)
    obtain to u1 where a: "(if b then (''all'', say (BRIGHT_MAGENTA @ ''Sending to all'' @ RESET @ [NL]) v)
        else read_line (say ''Recipient: '' v)) = (to, u1)" by force
    obtain subj u2 where s: "read_line (say ''Subject: '' u1) = (subj, u2)" by force
    obtain tb u3 where t: "read_line (say ''Message: '' u2) = (tb, u3)" by force
    obtain ok c where m: "sendMessage to subj tb h (the_client u3) = (ok, c)" by force
    have "quiet u u1" using a q quiet_ask[of "''Recipient: ''" v] by (auto split: if_splits)
    then have "quiet u u3" using quiet_ask[OF s] quiet_ask[OF t] by blast
    then have "quiet u (u3\<lparr>the_client := c\<rparr>)"
      using m sendMessage_keeps[of to subj tb h "the_client u3"] by (simp add: quiet_def)
    then show ?thesis
      using Some a s t m by (auto simp: cmdSendMessage_def Let_def)
  qed (simp add: cmdSendMessage_def q)
qed

section \<open>The invariant of the interface\<close>

text \<open>The arguments of an event are those the displays and \<open>storeMessage\<close> index.\<close>

definition event_ok :: "ServerEventData \<Rightarrow> bool" where
  "event_ok e \<longleftrightarrow> ev_type e \<notin> {NONE, PING} \<and> (ev_type e = MESSAGE \<longrightarrow> length (ev_args e) = 4)"

definition ui_inv :: "ui_pc \<times> ui \<Rightarrow> bool" where
  "ui_inv st \<longleftrightarrow> (case st of (pc, u) \<Rightarrow>
     client_wf (the_client u) \<and> (isConnected (the_client u) \<longleftrightarrow> pc \<noteq> Finished) \<and>
     (\<forall>e\<in>set (pendingEvents u). event_ok e \<and> ev_type e \<noteq> OK) \<and>
     (inCommand u \<longleftrightarrow> (case pc of Pausing _ \<Rightarrow> True | Finished \<Rightarrow> True | _ \<Rightarrow> False)))"

lemma client_wf_cong:
  "process.more c = process.more d \<Longrightarrow> fdOpen c = fdOpen d \<Longrightarrow> client_wf c = client_wf d"
  using client_frame[of c d] by (simp add: client_wf_def)

lemma parseMessage_ok: "parseMessage raw = Some e \<Longrightarrow> ev_type e \<noteq> PING \<Longrightarrow> event_ok e"
  by (auto simp: parseMessage_def event_ok_def Let_def split: if_splits)

lemma ui_inv_quiet: "ui_inv (pc, u) \<Longrightarrow> quiet u v \<Longrightarrow> ui_inv (pc, v)"
  using client_wf_cong[of "the_client v" "the_client u"] client_frame[of "the_client v" "the_client u"]
  by (simp add: ui_inv_def quiet_def)

text \<open>The part of the invariant that holds wherever the menu thread is.\<close>

definition ui_base :: "ui \<Rightarrow> bool" where
  "ui_base u \<longleftrightarrow> client_wf (the_client u) \<and> isConnected (the_client u) \<and>
     (\<forall>e\<in>set (pendingEvents u). event_ok e \<and> ev_type e \<noteq> OK)"

lemma ui_inv_base: "pc \<noteq> Finished \<Longrightarrow> ui_inv (pc, u) \<longleftrightarrow>
    ui_base u \<and> inCommand u = (case pc of Pausing _ \<Rightarrow> True | Finished \<Rightarrow> True | _ \<Rightarrow> False)"
  by (auto simp: ui_inv_def ui_base_def)

lemma ui_base_quiet: "ui_base u \<Longrightarrow> quiet u v \<Longrightarrow> ui_base v"
  using client_wf_cong[of "the_client v" "the_client u"] client_frame[of "the_client v" "the_client u"]
  by (simp add: ui_base_def quiet_def)

lemma ui_base_flags [simp]:
  "ui_base (u\<lparr>inCommand := b\<rparr>) = ui_base u" "ui_base (u\<lparr>lastReceivedEvent := l\<rparr>) = ui_base u"
  "ui_base (u\<lparr>pendingEvents := []\<rparr>) \<longleftrightarrow> client_wf (the_client u) \<and> isConnected (the_client u)"
  by (simp_all add: ui_base_def)

lemma ui_base_handler:
  assumes "ui_base u" "messageHandler (the_client u) = Some h" "mh_socketFd h1 = mh_socketFd h" "store_wf h1"
  shows "ui_base (on_client (\<lambda>c. c\<lparr>messageHandler := Some h1\<rparr>) u)"
  using assms by (auto simp: ui_base_def client_wf_def)

lemma base_read_message:
  assumes "ui_base u"
  shows "ui_base (cmdReadMessage u)" "inCommand (cmdReadMessage u) = inCommand u"
proof -
  have "ui_base (cmdReadMessage u) \<and> inCommand (cmdReadMessage u) = inCommand u"
  proof (cases "messageHandler (the_client u)")
    case (Some h)
    obtain i u1 where ri: "read_index (say ''Index: '' u) = (i, u1)" by force
    have q1: "quiet u u1" using ri by (auto simp: read_index_def quiet_def Let_def split: prod.splits)
    obtain r h1 where rm: "readMessageByIndex i h = (r, h1)" by force
    have b1: "ui_base u1" "messageHandler (the_client u1) = Some h" "store_wf h"
      using ui_base_quiet[OF assms q1] q1 Some assms client_frame(6)[of "the_client u1" "the_client u"]
      by (auto simp: quiet_def ui_base_def client_wf_def)
    show ?thesis
    proof (cases r)
      case None
      then have "cmdReadMessage u = printError ''Message not found'' u1"
        using Some ri rm by (simp add: cmdReadMessage_def)
      then have "quiet u1 (cmdReadMessage u)" by auto
      with q1 have "quiet u (cmdReadMessage u)" by (rule quiet_trans)
      with ui_base_quiet[OF assms] show ?thesis by (simp add: quiet_def)
    next
      case msg: (Some m)
      define u2 where "u2 = on_client (\<lambda>c. c\<lparr>messageHandler := Some h1\<rparr>) u1"
      have "mh_socketFd h1 = mh_socketFd h" using rm by (auto simp: readMessageByIndex_def split: option.splits)
      then have b2: "ui_base u2"
        unfolding u2_def using ui_base_handler[OF b1(1,2)] store_wf_read[OF b1(3), of i] rm by simp
      have in2: "inCommand u2 = inCommand u" using q1 by (simp add: u2_def quiet_def)
      obtain a u4 where ra: "read_line (say (message_view i m (the_client u2)) u2) = (a, u4)" by force
      obtain rp u5 where rr: "read_line (say ''Reply: '' u4) = (rp, u5)" by force
      have q4: "quiet u2 u4" using quiet_ask[OF ra] by simp
      then have q5: "quiet u2 u5" using quiet_ask[OF rr] by simp
      then have q6: "quiet u2 (on_client (\<lambda>c. snd (replyToMessage i rp h1 c)) u5)"
        by (intro quiet_on_client) (simp_all add: replyToMessage_keeps)
      have "cmdReadMessage u = (if a = ''r'' \<or> a = ''R''
          then if rp \<noteq> [] then on_client (\<lambda>c. snd (replyToMessage i rp h1 c)) u5 else u5 else u4)"
        using Some ri rm msg ra rr by (simp add: cmdReadMessage_def Let_def u2_def)
      then have "quiet u2 (cmdReadMessage u)" using q4 q5 q6 by simp
      with ui_base_quiet[OF b2] in2 show ?thesis by (simp add: quiet_def)
    qed
  qed (simp add: cmdReadMessage_def assms)
  then show "ui_base (cmdReadMessage u)" "inCommand (cmdReadMessage u) = inCommand u" by simp_all
qed

lemma base_event: "ui_base u \<Longrightarrow> event_ok e \<Longrightarrow>
    ui_base (onServerEvent e u) \<and> inCommand (onServerEvent e u) = inCommand u \<and> the_client (onServerEvent e u) = the_client (if inCommand u then u else displayEvent e u)"
  using ui_base_quiet[OF _ quiet_events(1)[OF quiet_refl], of u e] quiet_events(1)[OF quiet_refl, of u e]
  by (auto simp: onServerEvent_def ui_base_def quiet_def)

lemma base_pending: "ui_base u \<Longrightarrow> ui_base (displayPendingEvents u) \<and> inCommand (displayPendingEvents u) = inCommand u"
proof -
  assume b: "ui_base u"
  let ?v = "fold display_pending (pendingEvents u) (say ([NL] @ GRAY @ ''--- While you were busy ---'' @ RESET @ [NL]) u)"
  have "quiet u ?v" by (rule quiet_fold) (auto intro: quiet_events)
  with ui_base_quiet[OF b this] b show ?thesis
    by (simp add: displayPendingEvents_def quiet_def) (simp add: ui_base_def)
qed

lemma base_wait_start:
  "ui_base u \<Longrightarrow> quiet u v \<Longrightarrow> ui_inv (wait_start ev v)"
  using ui_base_quiet[of u v] by (simp add: wait_start_def ui_inv_base)

lemma base_menu:
  assumes "ui_base u" and "inCommand u"
  shows "ui_inv (run_menu cmd u)"
proof -
  have pause: "ui_base v \<Longrightarrow> inCommand v \<Longrightarrow> ui_inv (Pausing True, v)" for v by (simp add: ui_inv_base)
  have send: "quiet u (on_client (\<lambda>c. snd (sendCommand m h c)) u)" for m h
    by (rule quiet_on_client) (simp_all add: send_keeps)
  have quiet_case: "quiet u v \<Longrightarrow> ui_inv (Pausing True, v)" for v
    using pause[of v] ui_base_quiet[OF assms(1), of v] assms(2) by (simp add: quiet_def)
  show ?thesis
    using quiet_case quiet_cmds[OF quiet_refl] base_read_message[OF assms(1)] assms pause
      base_wait_start[OF assms(1) send]
    by (auto simp: run_menu_def cmdListUsers_def cmdGetLog_def split: MenuCommand.split option.split)
qed

lemma listen_pass_event_ok: "listen_pass ns h p = (r, Some e, h', p') \<Longrightarrow> event_ok e"
  by (auto simp: listen_pass_def dest: parseMessage_ok split: if_splits option.splits prod.splits)

lemma base_listener:
  assumes "ui_base u"
  shows "ui_base (listener_step u)" "inCommand (listener_step u) = inCommand u"
proof -
  have "ui_base (listener_step u) \<and> inCommand (listener_step u) = inCommand u"
  proof (cases "listening (the_client u)")
    case True
    from assms obtain h where h: "messageHandler (the_client u) = Some h" "mh_socketFd h = clientSocket (the_client u)"
      "store_wf h" by (auto simp: ui_base_def client_wf_def)
    obtain r ev h1 c where pass: "listen_pass (NetworkStream (mh_socketFd h)) h (the_client u) = (r, ev, h1, c)"
      by (metis prod_cases4)
    define u1 where "u1 = u\<lparr>the_client := c\<lparr>messageHandler := Some h1, listening := (r \<noteq> None)\<rparr>\<rparr>"
    have step: "listener_step u = (case ev of None \<Rightarrow> u1 | Some e \<Rightarrow> onServerEvent e u1)"
      using True h(1) pass unfolding listener_step_def Let_def u1_def by simp
    note k = listen_pass_keeps[OF pass]
    have "ui_base u1"
      using assms h k client_frame[OF k(1)] store_wf_listen[OF h(3) pass]
      by (auto simp: ui_base_def u1_def client_wf_def)
    moreover have "inCommand u1 = inCommand u" by (simp add: u1_def)
    moreover have "event_ok e" if "ev = Some e" for e using pass listen_pass_event_ok that by simp
    ultimately show ?thesis
      unfolding step using base_event[of u1] by (simp split: option.split)
  qed (simp add: listener_step_def assms)
  then show "ui_base (listener_step u)" "inCommand (listener_step u) = inCommand u" by simp_all
qed

lemma queued_events:
  "inCommand u \<Longrightarrow> fold onServerEvent evs u =
     u\<lparr>pendingEvents := pendingEvents u @ filter (\<lambda>e. ev_type e \<noteq> OK) evs\<rparr>"
  by (induction evs arbitrary: u) (simp_all add: onServerEvent_def)

lemma disconnect_events_ok: "Client_disconnect c = (evs, c') \<Longrightarrow> e \<in> set evs \<Longrightarrow> event_ok e"
  by (auto simp: Client_disconnect_def listen_def Let_def split: if_splits option.splits prod.splits
      intro: listen_events listen_pass_event_ok)

lemma inv_quit:
  assumes "ui_base u" and "inCommand u"
  shows "ui_inv (Finished, quit u)"
proof -
  let ?u = "say (YELLOW @ ''Disconnecting...'' @ RESET @ [NL]) u"
  obtain evs c where d: "Client_disconnect (the_client ?u) = (evs, c)" by force
  have "ui_base ?u" using assms(1) by (rule ui_base_quiet) auto
  then have "client_wf (the_client ?u)" by (simp add: ui_base_def)
  from Client_disconnect_ends[OF this d] have "client_wf c" "\<not> isConnected c" by simp_all
  moreover have "quit u = fold onServerEvent evs (?u\<lparr>the_client := c\<rparr>)" using d by (simp add: quit_def)
  ultimately show ?thesis
    using assms disconnect_events_ok[OF d] by (auto simp: queued_events ui_inv_def ui_base_def)
qed

lemma inv_show: "ui_base u \<Longrightarrow> ui_inv (show_menu u)"
  using ui_base_quiet[OF _ quiet_display(4)[OF quiet_refl]] by (simp add: show_menu_def ui_inv_base)

lemma inv_user_step:
  assumes "ui_inv (pc, u)"
  shows "ui_inv (user_step pc u)"
proof (cases pc)
  case AtMenu
  then have b: "ui_base u" using assms by (simp add: ui_inv_base)
  obtain l u1 where r: "read_line u = (l, u1)" by force
  have "quiet u u1" using quiet_read[OF r quiet_refl] .
  let ?u = "clearScreen (u1\<lparr>inCommand := True\<rparr>)"
  have q: "quiet (u1\<lparr>inCommand := True\<rparr>) ?u" by auto
  have b2: "ui_base ?u" using ui_base_quiet[OF b \<open>quiet u u1\<close>] by (intro ui_base_quiet[OF _ q]) simp
  have i2: "inCommand ?u" using q by (simp add: quiet_def)
  have "ui_inv (Pausing False, printError m ?u)" for m
    using ui_base_quiet[OF b2 quiet_display(2)[OF quiet_refl]] quiet_display(2)[OF quiet_refl, of ?u m] i2
    by (simp add: ui_inv_base quiet_def)
  then show ?thesis
    using AtMenu r inv_quit[OF b2 i2] base_menu[OF b2 i2] by (simp add: user_step_def menu_choice_def Let_def split: option.split)
next
  case (Waiting ev t0)
  then have b: "ui_base u" and i: "\<not> inCommand u" using assms by (simp_all add: ui_inv_base)
  have q: "quiet u (on_client (sleep_ns n) u)" for n by (rule quiet_on_client) (simp_all add: sleep_ns_def)
  then show ?thesis
    using Waiting b i ui_base_quiet[OF b q] by (simp add: user_step_def wait_poll_def ui_inv_base)
next
  case (Pausing known)
  then have b: "ui_base u" using assms by (simp add: ui_inv_base)
  have "ui_base (promptAndWait u)" using b by (rule ui_base_quiet) auto
  then show ?thesis using Pausing inv_show base_pending by (simp add: user_step_def Let_def)
next
  case Finished
  with assms show ?thesis by (simp add: user_step_def)
qed

lemma inv_ui_step:
  assumes "ui_inv st"
  shows "ui_inv (ui_step t st)"
proof (cases t)
  case User
  with assms inv_user_step show ?thesis by (cases st) simp
next
  case Listener
  obtain pc u where st: "st = (pc, u)" by force
  show ?thesis
  proof (cases "pc = Finished")
    case True
    with assms st have "messageHandler (the_client u) = None" by (simp add: ui_inv_def client_wf_def)
    with assms st Listener show ?thesis by (simp add: listener_step_def)
  next
    case False
    with assms st Listener base_listener[of u] show ?thesis by (simp add: ui_inv_base)
  qed
qed

lemma inv_ui_run: "ui_inv st \<Longrightarrow> ui_inv (ui_run ts st)"
  unfolding ui_run_def by (induction ts arbitrary: st) (simp_all add: inv_ui_step)

lemma inv_ui_start:
  assumes "client_wf (the_client u)" and "pendingEvents u = []" and "ui_start u = (Some pc, v)"
  shows "ui_inv (pc, v)"
proof -
  obtain n u2 where r: "read_line (say (YELLOW @ ''Username: '' @ RESET) (printHeader u)) = (n, u2)" by force
  obtain ok e c where cn: "Client_connect n (the_client u2) = (ok, e, c)" by (metis prod_cases3)
  define u3 where "u3 = printSuccess ''Connected!'' (u2\<lparr>the_client := c\<rparr>)"
  from assms(3) r cn have ok: "ok" and st: "(pc, v) = show_menu (on_client startListening (clearScreen u3))"
    by (auto simp: ui_start_def promptAndConnect_def Let_def u3_def split: if_splits prod.splits)
  have q: "quiet u u2" using quiet_ask[OF r] quiet_display(5)[OF quiet_refl] by simp
  then have "client_wf (the_client u2)"
    using assms(1) client_wf_cong[of "the_client u2" "the_client u"] by (simp add: quiet_def)
  from Client_connect_wf[OF this cn] ok have "client_wf c" "isConnected c" by auto
  then have "ui_base (u2\<lparr>the_client := c\<rparr>)" using q assms(2) by (simp add: ui_base_def quiet_def)
  then have "ui_base (clearScreen u3)" unfolding u3_def by (rule ui_base_quiet) (intro quiet_display quiet_refl)
  then have "ui_base (on_client startListening (clearScreen u3))"
    by (auto simp: ui_base_def startListening_def client_wf_def)
  then show ?thesis unfolding st by (rule inv_show)
qed

section \<open>Waiting for an answer\<close>

lemma printUserList_keeps:
  assumes "\<And>s c. g (print s c) = g c"
  shows "g (the_client (printUserList d u)) = g (the_client u)"
proof -
  have "g (the_client (fold (\<lambda>user u. if user = username (the_client u)
      then say (''  '' @ BRIGHT_YELLOW @ ''* '' @ user @ '' (You)'' @ RESET @ [NL]) u else say (''  '' @ user @ [NL]) u) us v)) =
    g (the_client v)" for us v
    by (rule fold_keeps) (simp add: assms)
  then show ?thesis by (simp add: printUserList_def Let_def assms)
qed

lemmas printUserList_simps [simp] = printUserList_keeps[of steadyClock, OF print_frame(4)] printUserList_keeps[of cin, OF print_frame(9)]

lemma display_simps [simp]:
  "steadyClock (the_client (displayEvent e u)) = steadyClock (the_client u)"
  "cin (the_client (displayEvent e u)) = cin (the_client u)"
  "cin (the_client (display_pending e u)) = cin (the_client u)"
  by (simp_all add: displayEvent_def display_pending_def split: ServerEvent.split)

lemma listen_pass_clock:
  assumes "listen_pass ns h (p :: 'a process_scheme) = (r, ev, h1, p1)"
  shows "steadyClock p1 = steadyClock p" "cin p1 = cin p"
proof -
  have send: "steadyClock (snd (sendCommand m h q)) = steadyClock q" "cin (snd (sendCommand m h q)) = cin q"
    for m and q :: "'a process_scheme"
    by (simp_all add: sendCommand_def Let_def case_prod_beta)
  obtain m ns2 p2 where recv: "ns_receive ns p = (m, ns2, p2)" by (metis prod_cases3)
  then have "steadyClock p2 = steadyClock p" "cin p2 = cin p"
    by (auto simp: ns_receive_def decodeMessage_def os_recv_def Let_def split: if_splits)
  with assms recv send show "steadyClock p1 = steadyClock p" "cin p1 = cin p"
    by (auto simp: listen_pass_def split: if_splits option.splits)
qed

lemma onServerEvent_simps [simp]:
  "steadyClock (the_client (onServerEvent e u)) = steadyClock (the_client u)"
  "cin (the_client (onServerEvent e u)) = cin (the_client u)" "menu (onServerEvent e u) = menu u"
  using quiet_events(1)[OF quiet_refl, of u e] by (simp_all add: onServerEvent_def quiet_def)

lemma listener_keeps:
  "steadyClock (the_client (listener_step u)) = steadyClock (the_client u)"
  "cin (the_client (listener_step u)) = cin (the_client u)" "menu (listener_step u) = menu u"
proof -
  have "steadyClock (the_client (listener_step u)) = steadyClock (the_client u) \<and>
    cin (the_client (listener_step u)) = cin (the_client u) \<and> menu (listener_step u) = menu u"
  proof (cases "listening (the_client u) \<and> messageHandler (the_client u) \<noteq> None")
    case True
    then obtain h where h: "listening (the_client u)" "messageHandler (the_client u) = Some h" by auto
    obtain r ev h1 c where pass: "listen_pass (NetworkStream (mh_socketFd h)) h (the_client u) = (r, ev, h1, c)"
      by (metis prod_cases4)
    from h pass listen_pass_clock[OF pass] show ?thesis
      by (simp add: listener_step_def Let_def split: option.split)
  qed (auto simp: listener_step_def)
  then show "steadyClock (the_client (listener_step u)) = steadyClock (the_client u)"
    "cin (the_client (listener_step u)) = cin (the_client u)" "menu (listener_step u) = menu u" by simp_all
qed

text \<open>After \<open>k\<close> polls 50 \<open>k\<close> ms have passed; the 62nd sees more than 3000 ms.\<close>

lemma wait_bounded:
  assumes "start + 50000000 * (62 - int r) \<le> steadyClock (the_client u)" and "r \<le> 62" "0 < r"
    and "r \<le> count_list ts User"
  shows "\<exists>pre rest. ts = pre @ rest \<and> fst (ui_run pre (Waiting ev start, u)) = Pausing True"
  using assms
proof (induction ts arbitrary: u r)
  case (Cons t ts)
  show ?case
  proof (cases t)
    case Listener
    with Cons.prems have "\<exists>pre rest. ts = pre @ rest \<and>
        fst (ui_run pre (Waiting ev start, listener_step u)) = Pausing True"
      by (intro Cons.IH) (simp_all add: listener_keeps)
    then obtain pre rest where "ts = pre @ rest" "fst (ui_run pre (Waiting ev start, listener_step u)) = Pausing True" by blast
    with Listener show ?thesis
      by (intro exI[of _ "Listener # pre"] exI[of _ rest]) (simp add: ui_run_def)
  next
    case User
    let ?w = "wait_poll ev start u"
    show ?thesis
    proof (cases "fst ?w = Pausing True")
      case True
      with User show ?thesis
        by (intro exI[of _ "[User]"] exI[of _ ts]) (simp add: ui_run_def user_step_def)
    next
      case False
      then have w: "?w = (Waiting ev start, on_client (sleep_ns 50000000) u)"
        and late: "\<not> tdiv (steadyClock (the_client u) - start) 1000000 > response_timeout_ms"
        by (auto simp: wait_poll_def split: if_splits)
      have "0 \<le> steadyClock (the_client u) - start" using Cons.prems(1,2) by simp
      with late have "steadyClock (the_client u) - start < 3001000000"
        by (simp add: tdiv_nonneg response_timeout_ms_def)
      with Cons.prems(1) have "1 < r" by simp
      with Cons.prems User have "\<exists>pre rest. ts = pre @ rest \<and>
          fst (ui_run pre (Waiting ev start, on_client (sleep_ns 50000000) u)) = Pausing True"
        by (intro Cons.IH[of "r - 1"]) (simp_all add: sleep_ns_def of_nat_diff)
      then obtain pre rest where "ts = pre @ rest"
        "fst (ui_run pre (Waiting ev start, on_client (sleep_ns 50000000) u)) = Pausing True" by blast
      with User w show ?thesis
        by (intro exI[of _ "User # pre"] exI[of _ rest]) (simp add: ui_run_def user_step_def)
    qed
  qed
qed simp

section \<open>A failed input stream\<close>

definition no_input :: "ui \<Rightarrow> bool" where
  "no_input u \<longleftrightarrow> \<not> is_good (cin (the_client u)) \<and> map_of (menu u) [] = None"

lemma no_input_quiet: "no_input u \<Longrightarrow> quiet u v \<Longrightarrow> cin (the_client v) = cin (the_client u) \<Longrightarrow> no_input v"
  by (simp add: no_input_def quiet_def)

lemma istream_get_bad: "\<not> is_good i \<Longrightarrow> \<not> is_good (istream_get i)"
  by (simp add: istream_get_def is_good_def)

lemma display_cin:
  "cin (the_client (clearScreen u)) = cin (the_client u)" "cin (the_client (printMenu u)) = cin (the_client u)"
  "cin (the_client (printError m u)) = cin (the_client u)"
  "cin (the_client (displayPendingEvents u)) = cin (the_client u)"
proof -
  show "cin (the_client (clearScreen u)) = cin (the_client u)" "cin (the_client (printMenu u)) = cin (the_client u)"
    "cin (the_client (printError m u)) = cin (the_client u)"
    by (simp_all add: clearScreen_def printMenu_def printError_def)
  have "cin (the_client (fold display_pending evs v)) = cin (the_client v)" for evs v
    by (rule fold_keeps) simp
  then show "cin (the_client (displayPendingEvents u)) = cin (the_client u)" by (simp add: displayPendingEvents_def)
qed

lemma quiet_menu: "quiet u v \<Longrightarrow> menu v = menu u"
  by (simp add: quiet_def)

lemma pending_menu: "menu (displayPendingEvents u) = menu u"
proof -
  have "quiet u (fold display_pending (pendingEvents u) (say ([NL] @ GRAY @ ''--- While you were busy ---'' @ RESET @ [NL]) u))"
    by (rule quiet_fold) (auto intro: quiet_events)
  from quiet_menu[OF this] show ?thesis by (simp add: displayPendingEvents_def)
qed

lemma no_input_user:
  assumes "no_input u" and "pc \<noteq> Finished"
  shows "fst (user_step pc u) \<noteq> Finished \<and> no_input (snd (user_step pc u))"
proof (cases pc)
  case AtMenu
  let ?u = "clearScreen ((on_client (\<lambda>c. c\<lparr>cin := (cin (the_client u))\<lparr>is_fail := True\<rparr>\<rparr>) u)\<lparr>inCommand := True\<rparr>)"
  have "menu ?u = menu u" by (simp add: clearScreen_def)
  with assms(1) AtMenu have step: "user_step pc u = (Pausing False, printError ''Invalid choice'' ?u)"
    by (simp add: user_step_def menu_choice_def read_line_def getline_def no_input_def Let_def)
  have "menu (printError ''Invalid choice'' ?u) = menu u" by (simp add: printError_def clearScreen_def)
  with step assms(1) show ?thesis by (simp add: no_input_def display_cin is_good_def)
next
  case (Waiting ev t0)
  with assms(1) show ?thesis by (simp add: user_step_def wait_poll_def no_input_def sleep_ns_def)
next
  case (Pausing known)
  let ?u = "promptAndWait u"
  have u: "menu ?u = menu u" "\<not> is_good (cin (the_client ?u))"
    using assms(1) by (simp_all add: promptAndWait_def clearScreen_def Let_def no_input_def istream_get_bad)
  have menu: "menu (printMenu v) = menu v" for v by (simp add: printMenu_def)
  from u assms(1) Pausing show ?thesis
    by (simp add: user_step_def show_menu_def Let_def no_input_def display_cin pending_menu menu)
qed (use assms in simp)

lemma no_input_run:
  "no_input u \<Longrightarrow> pc \<noteq> Finished \<Longrightarrow> fst (ui_run ts (pc, u)) \<noteq> Finished"
proof (induction ts arbitrary: pc u)
  case (Cons t ts)
  show ?case
  proof (cases t)
    case User
    obtain pc1 u1 where "user_step pc u = (pc1, u1)" by force
    with Cons no_input_user[of u pc] User show ?thesis by (simp add: ui_run_def)
  next
    case Listener
    with Cons listener_keeps[of u] show ?thesis by (simp add: ui_run_def no_input_def)
  qed
qed (simp add: ui_run_def)

section \<open>What the user is shown\<close>

text \<open>The text for one event that came while a command ran, for the user \<open>me\<close>.\<close>

definition users_text :: "string \<Rightarrow> string \<Rightarrow> string" where
  "users_text me d =
     (let users = split d '',''
      in BRIGHT_GREEN @ ''=== Users ('' @ to_string (int (length users)) @ '') ==='' @ RESET @ [NL]
         @ concat (map (\<lambda>x. if x = me then ''  '' @ BRIGHT_YELLOW @ ''* '' @ x @ '' (You)'' @ RESET @ [NL]
                                else ''  '' @ x @ [NL]) users))"

definition event_text :: "string \<Rightarrow> ServerEventData \<Rightarrow> string" where
  "event_text me e =
     (case ev_type e of
        MESSAGE \<Rightarrow> BRIGHT_GREEN @ ''New message from '' @ ev_args e ! 0 @ '' - '' @ ev_args e ! 1 @ RESET @ [NL]
      | ERROR_MSG \<Rightarrow> BRIGHT_RED @ ''[ERROR] '' @ RESET @ ev_data e @ [NL]
      | USERS \<Rightarrow> users_text me (ev_data e)
      | LOG \<Rightarrow> BRIGHT_CYAN @ ''=== LOG ==='' @ RESET @ [NL] @ ev_data e @ [NL]
      | _ \<Rightarrow> [])"

lemma say_say: "say b (say a u) = say (a @ b) u"
  by (simp add: on_client_def print_def)

lemma say_Nil: "say [] u = u"
  by (simp add: on_client_def print_def)

lemma username_say [simp]: "username (print s (c :: client)) = username c"
  by (rule client_frame(5)[OF print_frame(14)])

lemma fold_say:
  "(\<And>x v. username (the_client v) = me \<Longrightarrow> f x v = say (g x) v) \<Longrightarrow> username (the_client u) = me \<Longrightarrow>
   fold f xs u = say (concat (map g xs)) u"
  by (induction xs arbitrary: u) (simp_all add: say_Nil say_say)

lemma printUserList_say: "printUserList d u = say (users_text (username (the_client u)) d) u"
  unfolding printUserList_def users_text_def Let_def
  by (subst fold_say[where me = "username (the_client u)"]) (auto simp: say_say)

lemma display_pending_say: "display_pending e u = say (event_text (username (the_client u)) e) u"
  by (simp add: display_pending_def event_text_def printUserList_say say_say say_Nil split: ServerEvent.split)

lemma displayPendingEvents_say: "pendingEvents u \<noteq> [] \<Longrightarrow> displayPendingEvents u =
    (say ([NL] @ GRAY @ ''--- While you were busy ---'' @ RESET @ [NL]
       @ concat (map (event_text (username (the_client u))) (pendingEvents u))) u)\<lparr>pendingEvents := []\<rparr>"
  unfolding displayPendingEvents_def
  by (subst fold_say[where me = "username (the_client u)"]) (auto simp: display_pending_say say_say)

lemma validity_process: "config p = config q \<Longrightarrow> isValidUsername n p = isValidUsername n q"
  by (simp add: isValidUsername_def length_limit_def getInt_def)

lemma printHeader_keeps:
  "cin (the_client (printHeader u)) = cin (the_client u)" "config (the_client (printHeader u)) = config (the_client u)"
  "wire (the_client (printHeader u)) = wire (the_client u)" "rx (the_client (printHeader u)) = rx (the_client u)"
  "sendResult (the_client (printHeader u)) = sendResult (the_client u)"
  by (simp_all add: printHeader_def clearScreen_def Let_def)

lemma ui_start_cases:
  assumes "getline (cin (the_client u)) = (name, i)"
  obtains c where "quiet u (u\<lparr>the_client := c\<rparr>)" "config c = config (the_client u)" "wire c = wire (the_client u)"
    "rx c = rx (the_client u)" "sendResult c = sendResult (the_client u)" "cin c = i"
    "ui_start u = (if \<not> isValidUsername name (the_client u)
       then (None, printError ''Invalid name (alphanumeric and underscore, max 16 characters)'' (u\<lparr>the_client := c\<rparr>))
       else (case Client_connect name c of (ok, errorMsg, c') \<Rightarrow>
         if \<not> ok then (None, printError (if errorMsg = [] then ''Connection failed'' else errorMsg) (u\<lparr>the_client := c'\<rparr>))
         else (case show_menu (on_client startListening (clearScreen (printSuccess ''Connected!'' (u\<lparr>the_client := c'\<rparr>))))
                 of (pc, u2) \<Rightarrow> (Some pc, u2))))"
proof -
  let ?v = "say (YELLOW @ ''Username: '' @ RESET) (printHeader u)"
  define c where "c = (the_client ?v)\<lparr>cin := i\<rparr>"
  have v: "on_client (\<lambda>c. c\<lparr>cin := i\<rparr>) ?v = u\<lparr>the_client := c\<rparr>"
    by (simp add: c_def on_client_def printHeader_def clearScreen_def Let_def)
  then have r: "read_line ?v = (name, u\<lparr>the_client := c\<rparr>)"
    using assms by (simp add: read_line_def printHeader_keeps)
  have q: "quiet u (u\<lparr>the_client := c\<rparr>)" by (rule quiet_ask[OF r]) (intro quiet_display quiet_refl)
  have f: "config c = config (the_client u)" "wire c = wire (the_client u)" "rx c = rx (the_client u)"
    "sendResult c = sendResult (the_client u)" "cin c = i"
    by (simp_all add: c_def printHeader_keeps)
  show thesis
    by (rule that[OF q f])
       (use r validity_process[OF f(1)] in \<open>simp add: ui_start_def promptAndConnect_def Let_def split: prod.split\<close>)
qed

lemma ui_start_reaches:
  assumes "client_wf (the_client u)" and "\<not> isConnected (the_client u)" and "0 \<le> newFd (the_client u)"
    and "inetOk (the_client u) (serverAddress (the_client u))" and "connectOk (the_client u)"
    and "\<forall>data. sendResult (the_client u) (newFd (the_client u)) data = int (length data)"
    and "rx (the_client u) (newFd (the_client u)) = encodeMessage raw @ rest" and "sendable raw"
    and "getline (cin (the_client u)) = (name, i)" and "ui_start u = (r, v)"
  shows "r = (if isValidUsername name (the_client u) \<and> isValid (parse raw) \<and> command (parse raw) = ''OK''
      then Some AtMenu else None) \<and>
    (r = Some AtMenu \<longrightarrow> isConnected (the_client v) \<and> username (the_client v) = name \<and> listening (the_client v)) \<and>
    (r = None \<longrightarrow> \<not> isConnected (the_client v)) \<and>
    (\<not> isValidUsername name (the_client u) \<longrightarrow> wire (the_client v) = wire (the_client u))"
proof -
  from assms(9) obtain c where q: "quiet u (u\<lparr>the_client := c\<rparr>)" and w: "wire c = wire (the_client u)"
    and f: "rx c = rx (the_client u)" "sendResult c = sendResult (the_client u)"
    and s: "ui_start u = (if \<not> isValidUsername name (the_client u)
       then (None, printError ''Invalid name (alphanumeric and underscore, max 16 characters)'' (u\<lparr>the_client := c\<rparr>))
       else (case Client_connect name c of (ok, errorMsg, c') \<Rightarrow>
         if \<not> ok then (None, printError (if errorMsg = [] then ''Connection failed'' else errorMsg) (u\<lparr>the_client := c'\<rparr>))
         else (case show_menu (on_client startListening (clearScreen (printSuccess ''Connected!'' (u\<lparr>the_client := c'\<rparr>))))
                 of (pc, u2) \<Rightarrow> (Some pc, u2))))"
    by (rule ui_start_cases)
  from q have more: "process.more c = process.more (the_client u)" "fdOpen c = fdOpen (the_client u)"
    by (simp_all add: quiet_def)
  note cf = client_frame[OF more(1)]
  have wf: "client_wf c" using client_wf_cong[OF more] assms(1) by simp
  have err: "isConnected (the_client (printError m x)) = isConnected (the_client x)"
    "wire (the_client (printError m x)) = wire (the_client x)" for m x
    by (simp_all add: printError_def client_frame[OF print_frame(14)])
  show ?thesis
  proof (cases "isValidUsername name (the_client u)")
    case False
    then show ?thesis using s assms(2,10) w by (simp add: err cf)
  next
    case True
    obtain ok e c' where cn: "Client_connect name c = (ok, e, c')" by (metis prod_cases3)
    note rep = Client_connect_reply[of c raw rest name ok e c', OF wf]
    have ok: "ok \<longleftrightarrow> isValid (parse raw) \<and> command (parse raw) = ''OK''"
      using rep(1) cn assms(2-8) by (simp add: cf f)
    note life = Client_connect_cases[OF wf _ cn] Client_connect_wf[OF wf cn]
    show ?thesis
    proof (cases ok)
      case False
      then have "r = None" "isConnected (the_client v) = isConnected c'"
        using s True cn assms(10) by (auto simp: err)
      moreover have "\<not> isConnected c'" using life False assms(2) cf by (auto simp: dropped_def)
      ultimately show ?thesis using ok False True by simp
    next
      case ok': True
      have c': "isConnected c'" "username c' = name" "messageHandler c' \<noteq> None"
        using life ok' assms(2) cf by auto
      let ?u = "on_client startListening (clearScreen (printSuccess ''Connected!'' (u\<lparr>the_client := c'\<rparr>)))"
      have rv: "r = Some AtMenu" "v = (printMenu ?u)\<lparr>inCommand := False\<rparr>"
        using s True cn ok' assms(10) by (simp_all add: show_menu_def)
      have "isConnected (the_client v) \<and> username (the_client v) = name \<and> listening (the_client v)"
        using c' by (auto simp: rv(2) printMenu_def clearScreen_def printSuccess_def startListening_def
            client_frame[OF print_frame(14)])
      then show ?thesis using rv(1) ok ok' True by simp
    qed
  qed
qed

section \<open>Properties\<close>

text \<open>The start of the interface. With a server that can be reached and answers with the line
  \<open>raw\<close>, \<open>run\<close> gets to the menu exactly when the name typed is valid and the answer is an OK;
  then the client is connected under that name and its listener runs. In every other case it
  returns false with the client unconnected, and for an invalid name nothing has been sent.\<close>

theorem ui_start_spec:
  assumes "client_wf (the_client u)" and "\<not> isConnected (the_client u)" and "0 \<le> newFd (the_client u)"
    and "inetOk (the_client u) (serverAddress (the_client u))" and "connectOk (the_client u)"
    and "\<forall>data. sendResult (the_client u) (newFd (the_client u)) data = int (length data)"
    and "rx (the_client u) (newFd (the_client u)) = encodeMessage raw @ rest" and "sendable raw"
    and "getline (cin (the_client u)) = (name, i)" and "ui_start u = (r, v)"
  shows "r = (if isValidUsername name (the_client u) \<and> isValid (parse raw) \<and> command (parse raw) = ''OK''
      then Some AtMenu else None) \<and>
    (r = Some AtMenu \<longrightarrow> isConnected (the_client v) \<and> username (the_client v) = name \<and> listening (the_client v)) \<and>
    (r = None \<longrightarrow> \<not> isConnected (the_client v)) \<and>
    (\<not> isValidUsername name (the_client u) \<longrightarrow> wire (the_client v) = wire (the_client u))"
  by (rule ui_start_reaches[OF assms])

text \<open>A fresh interface whose user types "al" and whose server says OK.\<close>

definition example_ui :: ui where
  "example_ui = ClientUI_new (example_client\<lparr>rx := (\<lambda>_. encodeMessage (build ''OK'' [''hi''])),
     cin := \<lparr>is_buf = ''al'' @ [NL], is_eof = False, is_fail = False\<rparr>\<rparr>) ''127.0.0.1'' 8080 0"

lemma example_ui_simps:
  "client_wf (the_client example_ui)" "\<not> isConnected (the_client example_ui)" "newFd (the_client example_ui) = 3"
  "inetOk (the_client example_ui) = (\<lambda>_. True)" "connectOk (the_client example_ui)"
  "sendResult (the_client example_ui) = (\<lambda>_ data. int (length data))" "pendingEvents example_ui = []"
  "rx (the_client example_ui) 3 = encodeMessage (build ''OK'' [''hi'']) @ []"
  "config (the_client example_ui) = []" "cin (the_client example_ui) = \<lparr>is_buf = ''al'' @ [NL], is_eof = False, is_fail = False\<rparr>"
  using example_client_wf
  by (simp_all add: example_ui_def ClientUI_new_def client_wf_def)
     (simp_all add: example_client_def Client_new_def client.defs process.defs idle_process_def)

lemma example_reply: "sendable (build ''OK'' [''hi''])"
  "parse (build ''OK'' [''hi'']) = \<lparr>command = ''OK'', arguments = [''hi''], isValid = True\<rparr>"
  by (simp_all add: sendable_def length_build MAX_MESSAGE_SIZE_def parse_build wf_fields_def)

lemma example_name: "isValidUsername ''al'' (the_client example_ui)"
  by (simp add: isValidUsername_def length_limit_def getInt_def example_ui_simps(9) MAX_USERNAME_LENGTH_def
      username_char_def isalnum_def isalpha_def)

theorem ui_start_spec_witness:
  "fst (ui_start example_ui) = Some AtMenu \<and> username (the_client (snd (ui_start example_ui))) = ''al''"
proof -
  obtain r v where s: "ui_start example_ui = (r, v)" by force
  have g: "getline (cin (the_client example_ui)) = (''al'', \<lparr>is_buf = [], is_eof = False, is_fail = False\<rparr>)"
    by (simp add: example_ui_simps getline_def is_good_def)
  show ?thesis
    using ui_start_spec[OF example_ui_simps(1,2) _ _ example_ui_simps(5) _ _ example_reply(1) g s, of "[]"]
      example_name example_reply(2) s by (simp add: example_ui_simps)
qed



text \<open>C32: Waiting for an answer ends: once \<open>waitForResponse\<close> has begun, 62 turns of its loop are
  enough for it to be over, however many events the listener delivers in between and
  whether or not an answer comes.\<close>

theorem wait_ends:
  assumes "62 \<le> count_list ts User" and "wait_start expected u = (pc, v)"
  shows "\<exists>pre rest. ts = pre @ rest \<and> fst (ui_run pre (pc, v)) = Pausing True"
  using wait_bounded[of "steadyClock (the_client u)" 62 v ts expected] assms by (auto simp: wait_start_def)

theorem wait_ends_witness:
  "\<exists>pre rest. replicate 62 User = pre @ rest \<and> fst (ui_run pre (wait_start USERS example_ui)) = Pausing True"
proof -
  obtain pc v where "wait_start USERS example_ui = (pc, v)" by force
  moreover have "count_list (replicate n User) User = n" for n by (induction n) simp_all
  ultimately show ?thesis using wait_ends[of "replicate 62 User" USERS example_ui pc v] by simp
qed

text \<open>Every event that comes while a command runs is shown after it, in the order of arrival and
  once, with the exception of OKs, which are dropped: \<open>displayPendingEvents\<close> prints a heading
  and then one text per event, and leaves nothing queued.\<close>

theorem busy_events_shown:
  assumes "inCommand u" and "pendingEvents u = []" and "v = fold onServerEvent evs u"
    and "shown = filter (\<lambda>e. ev_type e \<noteq> OK) evs"
  shows "the_client v = the_client u \<and> pendingEvents (displayPendingEvents v) = [] \<and>
    os_text (cout (the_client (displayPendingEvents v))) = os_text (cout (the_client u)) @
      (if shown = [] then []
       else [NL] @ GRAY @ ''--- While you were busy ---'' @ RESET @ [NL] @
         concat (map (event_text (username (the_client u))) shown))"
proof -
  have v: "v = u\<lparr>pendingEvents := shown\<rparr>" using assms by (simp add: queued_events)
  show ?thesis
  proof (cases "shown = []")
    case True
    with v assms(2) show ?thesis by (simp add: displayPendingEvents_def)
  next
    case False
    with v show ?thesis by (simp add: displayPendingEvents_say print_def)
  qed
qed

theorem busy_events_shown_witness:
  "let u = example_ui\<lparr>inCommand := True\<rparr>; e = \<lparr>ev_type = ERROR_MSG, ev_data = ''no'', ev_args = []\<rparr>;
       v = fold onServerEvent [e, \<lparr>ev_type = OK, ev_data = ''yes'', ev_args = []\<rparr>] u
   in pendingEvents (displayPendingEvents v) = []"
  unfolding Let_def
  by (rule busy_events_shown[OF _ _ refl refl, THEN conjunct2, THEN conjunct1]) (simp_all add: example_ui_simps)

text \<open>An answer is recognised by the type of the last event only. Among the events shown since
  the last poll, \<open>waitForResponse\<close> sees just the last one: an answer that is followed by
  another event is missed (the wait goes on until its timeout), and an event of the expected
  type that was shown before the request was made ends the wait at once.\<close>

theorem wait_sees_last_event:
  assumes "\<not> inCommand u" and "evs \<noteq> []" and "v = fold onServerEvent evs u"
    and "wait_start expected w = (pc, w')" and "lastReceivedEvent w = lastReceivedEvent v"
  shows "fst (ui_run [User] (pc, w')) = Pausing True \<longleftrightarrow> ev_type (last evs) = expected"
proof -
  have "lastReceivedEvent v = ev_type (last evs)"
    using assms(1,2) unfolding assms(3)
  proof (induction evs arbitrary: u)
    case (Cons e evs)
    have "inCommand (onServerEvent e u) = inCommand u"
      using Cons.prems(1) quiet_events(1)[OF quiet_refl, of u e] by (simp add: onServerEvent_def quiet_def)
    with Cons show ?case by (cases evs) (simp_all add: onServerEvent_def)
  qed simp
  with assms(4,5) show ?thesis
    by (auto simp: wait_start_def ui_run_def user_step_def wait_poll_def tdiv_def response_timeout_ms_def split: if_splits)
qed

theorem wait_sees_last_event_witness:
  "let ev = \<lambda>t. \<lparr>ev_type = t, ev_data = [], ev_args = [[], [], [], []]\<rparr>;
       late = fold onServerEvent [ev USERS, ev MESSAGE] example_ui;
       stale = fold onServerEvent [ev USERS] example_ui
   in fst (ui_run [User] (wait_start USERS late)) \<noteq> Pausing True \<and>
      fst (ui_run [User] (wait_start USERS stale)) = Pausing True"
proof -
  let ?ev = "\<lambda>t. \<lparr>ev_type = t, ev_data = [], ev_args = [[], [], [], []]\<rparr>"
  have i: "\<not> inCommand example_ui" by (simp add: example_ui_def ClientUI_new_def)
  have "fst (ui_run [User] (wait_start USERS (fold onServerEvent evs example_ui))) = Pausing True \<longleftrightarrow>
      ev_type (last evs) = USERS" if "evs \<noteq> []" for evs
  proof -
    obtain pc w where w: "wait_start USERS (fold onServerEvent evs example_ui) = (pc, w)" by force
    show ?thesis unfolding w by (rule wait_sees_last_event[OF i that refl w refl])
  qed
  from this[of "[?ev USERS, ?ev MESSAGE]"] this[of "[?ev USERS]"] show ?thesis by (simp only: Let_def) simp
qed

text \<open>One wrong key makes the interface spin for ever. After "3" (read a message), an index that
  does not start like a number puts the input stream into its failed state, which nothing
  clears: whatever the user types after that and however the threads interleave, the loop
  takes every choice for an invalid one and the choice "7" is never seen.\<close>

theorem wrong_index_spins:
  assumes "is_good (cin (the_client u))" and "is_buf (cin (the_client u)) = ''3'' @ [NL] @ c # typed"
    and "\<not> isspace c" and "\<not> isdigit c" and "c \<noteq> CHR ''-''" and "c \<noteq> CHR ''+''"
    and "messageHandler (the_client u) = Some h" and "find_message 0 h = None"
    and "menu u = menu (ClientUI_new d ip prt junk)"
  shows "fst (ui_run (User # ts) (AtMenu, u)) \<noteq> Finished"
proof -
  let ?i = "(cin (the_client u))\<lparr>is_buf := c # typed\<rparr>"
  let ?u = "clearScreen ((on_client (\<lambda>c. c\<lparr>cin := ?i\<rparr>) u)\<lparr>inCommand := True\<rparr>)"
  have g: "getline (cin (the_client u)) = (''3'', ?i)"
    using assms(1,2) by (simp add: getline_def is_good_def)
  have m: "menu ?u = menu u" "cin (the_client ?u) = ?i" by (simp_all add: clearScreen_def)
  have h: "messageHandler (the_client ?u) = Some h"
    using assms(7) by (simp add: clearScreen_def client_frame(6)[OF print_frame(14)])
  have menu3: "map_of (menu u) ''3'' = Some MenuRead" "map_of (menu u) [] = None"
    by (simp_all add: assms(9) ClientUI_new_def um_of_def um_put_def)
  have ii: "istream_int ?i = (Some 0, ?i\<lparr>is_buf := c # typed, is_eof := False, is_fail := True\<rparr>)"
    using assms(1,3-6) by (simp add: istream_int_def is_good_def Let_def)
  have rd: "readMessageByIndex 0 h = (None, h)"
    using assms(8) by (simp add: readMessageByIndex_def find_message_def split: option.splits)
  let ?v = "cmdReadMessage ?u"
  have v: "?v = printError ''Message not found''
      (on_client (\<lambda>d. d\<lparr>cin := istream_ignore (?i\<lparr>is_buf := c # typed, is_eof := False, is_fail := True\<rparr>)\<rparr>) (say ''Index: '' ?u))"
    using h m(2) ii rd by (simp add: cmdReadMessage_def read_index_def Let_def)
  have "no_input ?v"
    unfolding v no_input_def using menu3(2) m(1)
    by (simp add: display_cin printError_def istream_ignore_def is_good_def)
  moreover have "user_step AtMenu u = (Pausing True, ?v)"
    using g menu3(1) m(1) by (simp add: user_step_def menu_choice_def read_line_def run_menu_def Let_def)
  ultimately show ?thesis
    using no_input_run[of ?v "Pausing True" ts] by (simp add: ui_run_def)
qed

theorem wrong_index_spins_witness:
  "let u = on_client (\<lambda>c. c\<lparr>messageHandler := Some (MessageHandler_new 3),
         cin := \<lparr>is_buf = ''3'' @ [NL] @ ''x'' @ [NL] @ ''7'' @ [NL], is_eof = False, is_fail = False\<rparr>\<rparr>) example_ui
   in fst (ui_run (User # replicate 1000 User) (AtMenu, u)) \<noteq> Finished"
  unfolding Let_def
  by (rule wrong_index_spins[where h = "MessageHandler_new 3" and c = "CHR ''x''" and typed = "[NL] @ ''7'' @ [NL]"
        and d = "the_client example_ui" and ip = "''127.0.0.1''" and prt = 8080 and junk = 0])
     (simp_all add: is_good_def isspace_def isdigit_def find_message_def MessageHandler_new_def
        ClientUI_new_def example_ui_def)

end
