(* ===== verification/Main_Programs.thy ===== *)
theory Main_Programs
  imports Chat_Spec Client_UI
begin

text \<open>
  The two programs: \<open>src/main_server.cpp\<close> and \<open>src/main_client.cpp\<close>. The arguments after the
  program's name are a list of strings, and reading them either ends the program with an
  exit code or gives the settings it runs with. What the kernel will answer to \<open>socket\<close>,
  \<open>bind\<close> and \<open>listen\<close> is an argument of the server's program.
\<close>

section \<open>Numbers in arguments\<close>

text \<open>
  \<open>std::atoi\<close> as glibc has it: \<open>strtol\<close>, which yields 0 without a digit and the nearest bound
  of \<open>long\<close> out of range, cut to an \<open>int\<close>.
\<close>

definition atoi :: "string \<Rightarrow> int" where
  "atoi s =
     (let t = dropWhile isspace s;
          neg = (case t of c # _ \<Rightarrow> c = CHR ''-'' | [] \<Rightarrow> False);
          u = (case t of c # r \<Rightarrow> if c = CHR ''-'' \<or> c = CHR ''+'' then r else t | [] \<Rightarrow> []);
          v = (if neg then - digits_value (takeWhile isdigit u) else digits_value (takeWhile isdigit u));
          l = max LLONG_MIN (min LLONG_MAX v)
      in sint (word_of_int l :: 32 word))"

section \<open>The server\<close>

record server_opts =
  opt_port :: int
  opt_connections :: int
  opt_verbose :: bool

definition default_opts :: server_opts where
  "default_opts = \<lparr>opt_port = DEFAULT_PORT, opt_connections = 100, opt_verbose = False\<rparr>"

definition complain :: "string \<Rightarrow> 'a process_scheme \<Rightarrow> 'a process_scheme" where
  "complain s p = p\<lparr>cerr := cerr p @ s @ [NL]\<rparr>"

definition server_usage :: "string \<Rightarrow> string" where
  "server_usage prog =
     ''Usage: '' @ prog @ '' [OPTIONS]'' @ [NL]
     @ ''Options:'' @ [NL]
     @ ''  -p, --port <port>           Server port (default: '' @ to_string DEFAULT_PORT @ '')'' @ [NL]
     @ ''  -c, --connections <num>     Max connections (default: 100)'' @ [NL]
     @ ''  -v, --verbose               Enable verbose logging (show DEBUG messages)'' @ [NL]
     @ ''  -h, --help                  Show this help message'' @ [NL]"

text \<open>The option an argument names.\<close>

datatype server_flag = FlagVerbose | FlagPort | FlagConnections | FlagHelp | FlagOther

definition server_flag_of :: "string \<Rightarrow> server_flag" where
  "server_flag_of a =
     (if a = ''-v'' \<or> a = ''--verbose'' then FlagVerbose
      else if a = ''-p'' \<or> a = ''--port'' then FlagPort
      else if a = ''-c'' \<or> a = ''--connections'' then FlagConnections
      else if a = ''-h'' \<or> a = ''--help'' then FlagHelp
      else FlagOther)"

definition take_port :: "string \<Rightarrow> server_opts \<Rightarrow> 'a process_scheme \<Rightarrow> server_opts \<times> 'a process_scheme" where
  "take_port v opts p =
     (let n = atoi v
      in if n \<le> 0 \<or> n > 65535
         then (opts\<lparr>opt_port := DEFAULT_PORT\<rparr>,
               complain (''Invalid port. Using default port: '' @ to_string DEFAULT_PORT) p)
         else (opts\<lparr>opt_port := n\<rparr>, p))"

definition take_connections :: "string \<Rightarrow> server_opts \<Rightarrow> server_opts" where
  "take_connections v opts =
     opts\<lparr>opt_connections := (let n = atoi v in if n \<le> 0 then 100 else n)\<rparr>"

definition missing_argument :: "string \<Rightarrow> 'a process_scheme \<Rightarrow> 'a process_scheme" where
  "missing_argument names p = complain (''Error: '' @ names @ '' requires an argument'') p"

text \<open>\<open>Inl\<close>: the program returns this code; \<open>Inr\<close>: it goes on with these settings.\<close>

fun server_args ::
  "string \<Rightarrow> string list \<Rightarrow> server_opts \<Rightarrow> 'a process_scheme \<Rightarrow> (int + server_opts) \<times> 'a process_scheme" where
  "server_args prog [] opts p = (Inr opts, p)"
| "server_args prog (a # rest) opts p =
     (case server_flag_of a of
        FlagVerbose \<Rightarrow> server_args prog rest (opts\<lparr>opt_verbose := True\<rparr>) p
      | FlagPort \<Rightarrow>
          (case rest of
             v # rest' \<Rightarrow> server_args prog rest' (fst (take_port v opts p)) (snd (take_port v opts p))
           | [] \<Rightarrow> (Inl 1, missing_argument ''-p/--port'' p))
      | FlagConnections \<Rightarrow>
          (case rest of
             v # rest' \<Rightarrow> server_args prog rest' (take_connections v opts) p
           | [] \<Rightarrow> (Inl 1, missing_argument ''-c/--connections'' p))
      | FlagHelp \<Rightarrow> (Inl 0, print (server_usage prog) p)
      | FlagOther \<Rightarrow> server_args prog rest opts p)"

record kernel =
  k_socket :: fd
  k_bind :: bool
  k_listen :: bool

datatype server_outcome = Exited int process | StartFailed server | Serving server

text \<open>
  \<open>main\<close> up to its waiting loop. The configuration is the singleton's, which is made on its
  first use and does nothing that can be seen then.
\<close>

definition server_main :: "kernel \<Rightarrow> string \<Rightarrow> string list \<Rightarrow> process \<Rightarrow> server_outcome" where
  "server_main k prog argv p =
     (case server_args prog argv default_opts p of
        (Inl code, p1) \<Rightarrow> Exited code p1
      | (Inr opts, p1) \<Rightarrow>
          (let p2 = setVerbose (opt_verbose opts) (setLogFile DEFAULT_SERVER_LOG p1);
               s = (Server_new (RuntimeConfig_init p2))\<lparr>newSocket := k_socket k, bindOk := k_bind k, listenOk := k_listen k\<rparr>;
               (r, s1) = Server_start (opt_port opts) (opt_connections opts) s
           in if r \<noteq> 0 then StartFailed (LOG_ERROR ''Failed to start server'' s1) else Serving s1))"

text \<open>One turn of the waiting loop; \<open>None\<close>: \<open>main\<close> returns 0.\<close>

definition main_loop_pass :: "server \<Rightarrow> server option" where
  "main_loop_pass s =
     (if status s = RUNNING then Some (sleep_ns (MAIN_LOOP_SLEEP_S * ns_per_s) s) else None)"

text \<open>The end of \<open>main\<close>: the server object is destroyed on the way out.\<close>

definition server_main_end :: "server \<Rightarrow> int \<times> server" where
  "server_main_end s = (0, Server_destroy s)"

definition SIGINT :: int where "SIGINT = 2"
definition SIGTERM :: int where "SIGTERM = 15"

text \<open>The handler, before and after \<open>globalServer\<close> is set; the first component is the exit code.\<close>

definition signalHandler :: "bool \<Rightarrow> int \<Rightarrow> server \<Rightarrow> int option \<times> server" where
  "signalHandler globalServer signal s =
     (if signal = SIGINT \<or> signal = SIGTERM then
        (let s1 = print ([NL] @ ''Shutdown signal received...'' @ [NL]) s
         in (Some 0, if globalServer then Server_stop s1 else s1))
      else (None, s))"

section \<open>The client\<close>

datatype client_flag = ClientServer | ClientPort | ClientHelp | ClientOther

text \<open>\<open>follows\<close>: another argument follows.\<close>

definition client_flag_of :: "string \<Rightarrow> bool \<Rightarrow> client_flag" where
  "client_flag_of a follows =
     (if (a = ''-s'' \<or> a = ''--server'') \<and> follows then ClientServer
      else if (a = ''-p'' \<or> a = ''--port'') \<and> follows then ClientPort
      else if a = ''-h'' \<or> a = ''--help'' then ClientHelp
      else ClientOther)"

definition client_usage :: "string \<Rightarrow> string" where
  "client_usage prog = ''Usage: '' @ prog @ '' [-s ip] [-p port] [-h]'' @ [NL]"

fun client_args ::
  "string \<Rightarrow> string list \<Rightarrow> string \<times> int \<Rightarrow> 'a process_scheme \<Rightarrow> (int + string \<times> int) \<times> 'a process_scheme" where
  "client_args prog [] opts p = (Inr opts, p)"
| "client_args prog (a # rest) opts p =
     (case client_flag_of a (rest \<noteq> []) of
        ClientServer \<Rightarrow> client_args prog (tl rest) (hd rest, snd opts) p
      | ClientPort \<Rightarrow> client_args prog (tl rest) (fst opts, atoi (hd rest)) p
      | ClientHelp \<Rightarrow> (Inl 0, print (client_usage prog) p)
      | ClientOther \<Rightarrow> client_args prog rest opts p)"

text \<open>\<open>main\<close> up to the menu; \<open>env\<close> sets what the kernel will answer to the client's calls.\<close>

datatype client_outcome = ClientExited int process | NotConnected ui | AtTheMenu ui_pc ui

definition client_main ::
  "(client \<Rightarrow> client) \<Rightarrow> int \<Rightarrow> string \<Rightarrow> string list \<Rightarrow> process \<Rightarrow> client_outcome" where
  "client_main env junk prog argv p =
     (case client_args prog argv (''127.0.0.1'', DEFAULT_PORT) p of
        (Inl code, p1) \<Rightarrow> ClientExited code p1
      | (Inr (ip, prt), p1) \<Rightarrow>
          (let c = Client_new ip prt (RuntimeConfig_init (setLogFile DEFAULT_CLIENT_LOG p1))
           in case ui_start (ClientUI_new (env c) ip prt junk) of
                (None, u) \<Rightarrow> NotConnected u
              | (Some pc, u) \<Rightarrow> AtTheMenu pc u))"

text \<open>What the program returns, once it does.\<close>

definition client_code :: "client_outcome \<Rightarrow> int option" where
  "client_code r =
     (case r of ClientExited n _ \<Rightarrow> Some n | NotConnected _ \<Rightarrow> Some 1
      | AtTheMenu pc _ \<Rightarrow> if pc = Finished then Some 0 else None)"

section \<open>Facts\<close>

lemma atoi_to_string:
  assumes "0 \<le> n" and "n \<le> INT_MAX"
  shows "atoi (to_string n) = n"
proof -
  obtain d ds where nd: "nat_str (nat n) = d # ds" by (cases "nat_str (nat n)") auto
  have "isdigit d" using nat_str_digits[of "nat n"] nd by simp
  then have d: "d \<noteq> CHR ''-''" "d \<noteq> CHR ''+''" "\<not> isspace d"
    using not_digit_special not_space_digit by auto
  have "takeWhile isdigit (d # ds) = d # ds" "digits_value (d # ds) = n"
    using takeWhile_nat_str[of "nat n"] digits_value_nat_str[of "nat n"] assms(1) nd by simp_all
  moreover have "max LLONG_MIN (min LLONG_MAX n) = n"
    using assms by (simp add: LLONG_MIN_def LLONG_MAX_def INT_MAX_def)
  moreover have "sint (word_of_int n :: 32 word) = n"
    using assms by (simp add: INT_MAX_def signed_of_int signed_take_bit_int_eq_self)
  moreover have "to_string n = d # ds" using assms(1) nd by (simp add: to_string_def)
  ultimately show ?thesis using d by (simp add: atoi_def Let_def)
qed

lemma take_port_ok: "1 \<le> opt_port (fst (take_port v opts p)) \<and> opt_port (fst (take_port v opts p)) \<le> 65535"
  "opt_connections (fst (take_port v opts p)) = opt_connections opts"
  by (simp_all add: take_port_def Let_def DEFAULT_PORT_def)

lemma take_connections_ok: "0 < opt_connections (take_connections v opts)"
  "opt_port (take_connections v opts) = opt_port opts"
  by (simp_all add: take_connections_def Let_def)

definition opts_ok :: "server_opts \<Rightarrow> bool" where
  "opts_ok opts \<longleftrightarrow> 1 \<le> opt_port opts \<and> opt_port opts \<le> 65535 \<and> 0 < opt_connections opts"

lemma server_args_ok:
  "opts_ok opts \<Longrightarrow> server_args prog args opts p = (r, p') \<Longrightarrow>
   (case r of Inl code \<Rightarrow> code = 0 \<or> code = 1 | Inr o' \<Rightarrow> opts_ok o')"
proof (induction prog args opts p rule: server_args.induct)
  case (2 prog a rest opts p)
  show ?case
  proof (cases "server_flag_of a")
    case FlagVerbose
    with 2 show ?thesis by (simp add: opts_ok_def)
  next
    case FlagPort
    with 2 take_port_ok[of _ opts p] show ?thesis by (cases rest) (auto simp: opts_ok_def)
  next
    case FlagConnections
    with 2 take_connections_ok[of _ opts] show ?thesis by (cases rest) (auto simp: opts_ok_def)
  next
    case FlagHelp
    with 2 show ?thesis by auto
  next
    case FlagOther
    with 2 show ?thesis by simp
  qed
qed auto

section \<open>Settings as arguments\<close>

datatype setting = SetVerbose | SetPort int | SetConnections int

fun setting_args :: "setting \<Rightarrow> string list" where
  "setting_args SetVerbose = [''-v'']"
| "setting_args (SetPort n) = [''-p'', to_string n]"
| "setting_args (SetConnections n) = [''-c'', to_string n]"

fun setting_ok :: "setting \<Rightarrow> bool" where
  "setting_ok SetVerbose = True"
| "setting_ok (SetPort n) = (1 \<le> n \<and> n \<le> 65535)"
| "setting_ok (SetConnections n) = (1 \<le> n \<and> n \<le> INT_MAX)"

fun apply_setting :: "setting \<Rightarrow> server_opts \<Rightarrow> server_opts" where
  "apply_setting SetVerbose opts = opts\<lparr>opt_verbose := True\<rparr>"
| "apply_setting (SetPort n) opts = opts\<lparr>opt_port := n\<rparr>"
| "apply_setting (SetConnections n) opts = opts\<lparr>opt_connections := n\<rparr>"

lemma server_args_setting:
  "setting_ok x \<Longrightarrow> server_args prog (setting_args x @ rest) opts p = server_args prog rest (apply_setting x opts) p"
  by (cases x) (simp_all add: server_flag_of_def take_port_def take_connections_def atoi_to_string INT_MAX_def)

lemma server_args_settings:
  "list_all setting_ok xs \<Longrightarrow>
   server_args prog (concat (map setting_args xs)) opts p = (Inr (fold apply_setting xs opts), p)"
  by (induction xs arbitrary: opts) (simp_all add: server_args_setting)

lemma has_commands_cong: "commands s = commands t \<Longrightarrow> has_commands s = has_commands t"
  by (simp add: has_commands_def initializeCommands_def)

lemma commands_loadBanlist: "commands (loadBanlist t) = commands t"
  by (simp add: loadBanlist_def Let_def split: option.split)

lemma has_commands_start: "has_commands (start_services s)"
proof -
  have "has_commands (initializeCommands t)" for t
    by (simp add: has_commands_def initializeCommands_def)
  moreover have "\<exists>t. commands (start_services s) = commands (initializeCommands t)"
    by (intro exI) (simp add: start_services_def createServerThreads_def Let_def case_prod_beta commands_loadBanlist)
  ultimately show ?thesis using has_commands_cong by blast
qed

lemma port_started:
  assumes "Server_start PORT n s = (0, s0)"
  shows "port (sconfig s0) = PORT" "max_connections (sconfig s0) = (if 0 < n then n else 100)"
    "s0 = start_services (snd (open_listener PORT n s))"
proof -
  show s0: "s0 = start_services (snd (open_listener PORT n s))"
    using assms by (auto simp: Server_start_def split: if_splits prod.splits option.splits)
  have o: "fst (open_listener PORT n s) \<noteq> None"
    using assms by (auto simp: Server_start_def split: if_splits prod.splits option.splits)
  then have "sconfig (snd (open_listener PORT n s)) = sconfig (prepare_start PORT n s)"
    by (auto simp: open_listener_def Let_def split: if_splits)
  then show "port (sconfig s0) = PORT" "max_connections (sconfig s0) = (if 0 < n then n else 100)"
    by (simp_all add: s0 start_services_spec prepare_start_def initializeConfig_def Let_def)
qed

lemma Server_start_result:
  assumes "status s = OFF" and "Server_start PORT n s = (c, s1)"
  shows "c = 0 \<longleftrightarrow> 0 \<le> newSocket s \<and> bindOk s \<and> listenOk s" "c \<noteq> 0 \<Longrightarrow> status s1 = OFF"
proof -
  obtain r t where o: "open_listener PORT n s = (r, t)" by force
  then show "c = 0 \<longleftrightarrow> 0 \<le> newSocket s \<and> bindOk s \<and> listenOk s" "c \<noteq> 0 \<Longrightarrow> status s1 = OFF"
    using assms open_listener_spec(1,2)[of PORT n s] by (cases r; simp add: Server_start_def)+
qed

lemma new_server_fields [simp]:
  "clients (Server_new p) = []" "status (Server_new p) = OFF" "config (Server_new p) = config p"
  "definitions (Server_new p) = definitions p"
  by (simp_all add: Server_new_def process.defs server.defs)

section \<open>Properties\<close>

text \<open>When the waiting loop is left because the server is off, the destructor has nothing to do.\<close>

lemma main_end_off: "status s = OFF \<Longrightarrow> main_loop_pass s = None \<and> server_main_end s = (0, s)"
  by (simp add: main_loop_pass_def server_main_end_def Server_destroy_def Server_stop_def)

text \<open>The server's arguments: any list of valid settings written as arguments is read back as
  those settings, the last one of a kind winning, without a complaint. Whatever the
  arguments are, the program either ends with code 0 or 1 or goes on with a port between 1
  and 65535 and a positive number of connections.\<close>

theorem server_args_spec:
  "(list_all setting_ok xs \<longrightarrow>
      server_args prog (concat (map setting_args xs)) opts p = (Inr (fold apply_setting xs opts), p)) \<and>
   fst (server_args prog args default_opts p) \<in> {Inl 0, Inl 1} \<union>
      {Inr opts |opts. 1 \<le> opt_port opts \<and> opt_port opts \<le> 65535 \<and> 0 < opt_connections opts}"
proof -
  obtain r p' where r: "server_args prog args default_opts p = (r, p')" by force
  have "opts_ok default_opts" by (simp add: opts_ok_def default_opts_def DEFAULT_PORT_def)
  from server_args_ok[OF this r]
  have "fst (server_args prog args default_opts p) \<in> {Inl 0, Inl 1} \<union>
      {Inr opts |opts. 1 \<le> opt_port opts \<and> opt_port opts \<le> 65535 \<and> 0 < opt_connections opts}"
    unfolding r by (cases r) (auto simp: opts_ok_def)
  with server_args_settings show ?thesis by blast
qed

theorem server_args_spec_witness:
  "fst (server_args ''server'' [''-p'', ''9000'', ''-v''] default_opts idle_process) =
     Inr \<lparr>opt_port = 9000, opt_connections = 100, opt_verbose = True\<rparr>"
proof -
  let ?xs = "[SetPort 9000, SetVerbose]"
  have n: "to_string 9000 = ''9000''" by (simp add: to_string_def nat_str.simps digit_def char_of_def bit_iff_odd)
  have args: "concat (map setting_args ?xs) = [''-p'', ''9000'', ''-v'']" by (simp add: n)
  have opts: "fold apply_setting ?xs default_opts = \<lparr>opt_port = 9000, opt_connections = 100, opt_verbose = True\<rparr>"
    by (simp add: default_opts_def)
  have "server_args ''server'' (concat (map setting_args ?xs)) default_opts idle_process =
      (Inr (fold apply_setting ?xs default_opts), idle_process)"
    by (rule server_args_spec[THEN conjunct1, rule_format]) simp
  then show ?thesis unfolding args opts by (simp only: fst_conv)
qed



end
