(* ===== verification/Chat_Refinement.thy ===== *)
theory Chat_Refinement
  imports Chat_Spec "HOL-Library.Multiset"
begin

text \<open>
  The chat specification as a transition system, and the proof that the running server, with
  all its threads, is simulated by it. What the specification leaves to the server is when
  things happen, also between the writing of a message and its arrival in the mailbox; what
  it fixes is who may join, leave and write, what may arrive, and that the mailbox is emptied
  in its order.
\<close>

section \<open>The specification as a transition system\<close>

inductive chat_step :: "chat \<Rightarrow> chat \<Rightarrow> bool" where
  line: "chat_command n l now cmd args k t t' \<Longrightarrow> chat_step t t'"
| joins: "name_ok u \<Longrightarrow> chat_step t (t\<lparr>members := (members t)(u \<mapsto> k)\<rparr>)"
| delivers: "mailbox t = m # ms \<Longrightarrow> chat_step t (t\<lparr>mailbox := ms\<rparr>)"
| leaves: "chat_step t (t\<lparr>members := (members t)(u := None)\<rparr>)"
| bans: "chat_step t (t\<lparr>banned := insert u (banned t)\<rparr>)"
| unbans: "chat_step t (t\<lparr>banned := banned t - {u}\<rparr>)"
| closes: "chat_step t (t\<lparr>members := Map.empty\<rparr>)"

inductive_cases chat_stepE: "chat_step t t'"

text \<open>
  Letters between pen and mailbox: a \<open>Draft\<close> is written to everybody and has no addressees yet, a
  \<open>Copy\<close> is for one member. A member writes; a draft becomes one copy for each of the others
  at the time; a copy reaches the mailbox, or is lost when it is full.
\<close>

datatype letter = Draft Message | Copy Message

type_synonym room = "chat \<times> letter multiset"

inductive room_step :: "room \<Rightarrow> room \<Rightarrow> bool" where
  chats: "chat_step t t' \<Longrightarrow> room_step (t, D) (t', D)"
| writes: "members t (msg_from m) \<noteq> None \<Longrightarrow> members t (msg_to m) \<noteq> None \<Longrightarrow> msg_to m \<noteq> ''all'' \<Longrightarrow>
     room_step (t, D) (t, add_mset (Copy m) D)"
| writes_all: "members t (msg_from m) \<noteq> None \<Longrightarrow> msg_to m = ''all'' \<Longrightarrow> room_step (t, D) (t, add_mset (Draft m) D)"
| addresses: "posts t m copies \<Longrightarrow> msg_to m = ''all'' \<Longrightarrow>
     room_step (t, add_mset (Draft m) D) (t, mset (map Copy copies) + D)"
| arrives: "length (mailbox t) < 10000 \<Longrightarrow>
     room_step (t, add_mset (Copy m) D) (t\<lparr>mailbox := mailbox t @ [m]\<rparr>, D)"
| is_lost: "10000 \<le> length (mailbox t) \<Longrightarrow> room_step (t, add_mset (Copy m) D) (t, D)"

lemma chat_room: "rtranclp chat_step t t' \<Longrightarrow> rtranclp room_step (t, D) (t', D)"
  by (induction rule: rtranclp_induct) (auto intro: room_step.chats rtranclp.rtrancl_into_rtrancl)

section \<open>Handlers called through the table\<close>

text \<open>The handlers do not look at the first word of the line.\<close>

lemma first_word:
  "handleConnect (c # args) k s = handleConnect (''CONNECT'' # args) k s"
  "handleSendMessage (c # args) k s = handleSendMessage (''SEND'' # args) k s"
proof -
  have at: "(d # args) ! 1 = args ! 0" "(d # args) ! 2 = args ! 1" "(d # args) ! 3 = args ! 2" for d :: string
    by simp_all
  show "handleConnect (c # args) k s = handleConnect (''CONNECT'' # args) k s"
    by (simp add: handleConnect_def connect_check_def)
  show "handleSendMessage (c # args) k s = handleSendMessage (''SEND'' # args) k s"
    unfolding handleSendMessage_eq at list.size ..
qed

text \<open>What a client command does in the specification: a line, and one that is not a SEND posts nothing.\<close>

definition line_step :: "fd \<Rightarrow> string list \<Rightarrow> chat \<Rightarrow> chat \<Rightarrow> bool" where
  "line_step k args t t' \<longleftrightarrow> (\<exists>n l now cmd. chat_command n l now cmd args k t t')"

lemma line_stepI: "chat_command n l now cmd args k t t' \<Longrightarrow> line_step k args t t'"
  unfolding line_step_def by blast

lemma line_step_refl [simp]: "line_step k args t t"
  unfolding line_step_def by (intro exI[of _ "''PING''"] exI) (simp add: chat_command_def)

lemma run_command_line:
  assumes "server_inv s"
  shows "line_step k args (abs_server s) (abs_server (run_command d (c # args) k s))"
proof -
  have q: "abs_server (handlePing k s) = abs_server s" "abs_server (handleListUsers k s) = abs_server s"
    "abs_server (handleGetLog k s) = abs_server s"
    by (rule abs_core, simp)+
  show ?thesis
    using line_stepI[OF abs_connect[OF assms]] line_stepI[OF abs_disconnect[OF assms]]
      line_stepI[OF abs_send[OF assms]] abs_pong[OF assms] q
    by (cases d) (simp_all add: run_command_def first_word[of c])
qed

lemma executeCommand_line:
  assumes "server_inv s"
  shows "line_step k args (abs_server s) (abs_server (executeCommand c args k s))"
proof -
  have "abs_server (snd (send_on k m (logger_log l w s))) = abs_server s" for m l w
    by (rule abs_core) simp
  with run_command_line[OF assms] show ?thesis by (simp add: executeCommand_def split: option.split)
qed

lemma client_pass_line:
  assumes "server_inv s" and "client_pass k ns s = (r, s')"
  shows "\<exists>args. line_step k args (abs_server s) (abs_server s') \<and>
    (args \<noteq> [] \<longrightarrow> (\<exists>raw. fst (ns_receive ns s) = Some raw \<and> args = arguments (parse raw)))"
proof (cases "status s = RUNNING \<and> connected ns")
  case True
  obtain m ns1 s1 where recv: "ns_receive ns s = (m, ns1, s1)" by (metis prod_cases3)
  show ?thesis
  proof (cases m)
    case None
    from ns_receive_None[of ns s ns1 s1] recv None obtain q where s1: "s1 = s\<lparr>rx := q\<rparr>" by blast
    have inv: "server_inv s1" and a: "abs_server s1 = abs_server s"
      unfolding s1 by (rule server_inv_keep[OF assms(1)], simp_all) (rule abs_core, simp add: core_def)
    have d: "line_step k [] (abs_server s1) (abs_server (handleDisconnect k s1))"
      by (rule line_stepI[OF abs_disconnect[OF inv]])
    have "line_step k [] (abs_server s) (abs_server s')"
      using True assms(2) recv None a d by (auto simp: client_pass_def Let_def split: if_splits)
    then show ?thesis by blast
  next
    case (Some raw)
    from ns_receive_shrinks(2)[of ns s raw ns1 s1] recv Some obtain q where s1: "s1 = s\<lparr>rx := q\<rparr>" by blast
    have inv: "server_inv s1" and a: "abs_server s1 = abs_server s"
      unfolding s1 by (rule server_inv_keep[OF assms(1)], simp_all) (rule abs_core, simp add: core_def)
    have "line_step k (arguments (parse raw)) (abs_server s) (abs_server s')"
      using True assms(2) recv Some a executeCommand_line[OF inv]
      by (auto simp: client_pass_def Let_def split: if_splits)
    with recv Some show ?thesis by auto
  qed
next
  case False
  with assms(2) have "s' = s" by (auto simp: client_pass_def)
  moreover have "line_step k [] (abs_server s) (abs_server s)" by simp
  ultimately show ?thesis by blast
qed

lemma line_step_chat: "line_step k args t t' \<Longrightarrow> rtranclp chat_step t t'"
  unfolding line_step_def by (blast intro: chat_step.line)

section \<open>The other threads\<close>

lemma abs_same: "core t = core s \<Longrightarrow> rtranclp chat_step (abs_server s) (abs_server t)"
  using abs_core[of t s] by simp

lemma abs_unregister: "abs_server (unregisterClient u s) = (abs_server s)\<lparr>members := (members (abs_server s))(u := None)\<rparr>"
  using dispatching_cong(2)[of "unregisterClient u s" s] by (simp add: abs_server_def fun_eq_iff)

lemma abs_take:
  assumes "dispatch_take s = Some (m, s')"
  shows "\<exists>ms. mailbox (abs_server s) = m # ms \<and> abs_server s' = (abs_server s)\<lparr>mailbox := ms\<rparr>"
  using dispatch_take_Some[OF assms] by (auto simp: abs_server_def pending_def)

lemma abs_deliver: "abs_server (deliver m s) = abs_server s"
  by (rule abs_core) (simp add: core_def)

lemma abs_drop:
  assumes "server_inv s"
  shows "rtranclp chat_step (abs_server s) (abs_server (drop_client u s))"
  using line_step_chat[OF line_stepI[OF abs_disconnect[OF assms]]] by (simp add: drop_client_def Let_def)

lemma abs_ping: "abs_server (ping_clients s) = abs_server s"
proof -
  have "bannedUsers (ping_clients s) = bannedUsers s"
    using core_ping_fold[of "clients s" s] by (simp add: ping_clients_def core_def Let_def)
  moreover have "map_option socket (map_of (clients (ping_clients s)) u) = map_option socket (map_of (clients s) u)" for u
  proof -
    have "map_of (map (\<lambda>(u, i). (u, i\<lparr>waitingForPong := True\<rparr>)) cs) u =
        map_option (\<lambda>i. i\<lparr>waitingForPong := True\<rparr>) (map_of cs u)" for cs :: "(string \<times> ClientInfo) list"
      by (induction cs) auto
    then show ?thesis by (simp add: ping_clients_fields option.map_comp comp_def)
  qed
  moreover have "pending (ping_clients s) = pending s" by (rule dispatching_cong(2)) (simp add: ping_clients_fields)
  ultimately show ?thesis by (simp add: abs_server_def)
qed

lemma fold_close_banned: "bannedUsers (fold (\<lambda>(u, i). os_close (socket i)) cs (s :: server)) = bannedUsers s"
  by (rule fold_keeps) (simp add: case_prod_beta)

lemma run_admin_stop: "run_admin ACmdStop a s = Server_stop ((print (''Stopping server...'' @ [NL]) s)\<lparr>adminRunning := False\<rparr>)"
  by (simp add: run_admin_def cmdStop_def)

lemma abs_run_admin:
  assumes "server_inv s"
  shows "rtranclp chat_step (abs_server s) (abs_server (run_admin c a s))"
proof (cases c)
  case ACmdKick
  then have "core (run_admin c a s) = core (if 0 < getUserSocket (a ! 1) s then unregisterClient (a ! 1) s else s)"
    by (simp add: run_admin_def core_kick)
  from abs_core[OF this] show ?thesis
    by (auto simp: abs_unregister intro: chat_step.leaves)
next
  case ACmdBan
  let ?t = "(unregisterClient (a ! 1) s)\<lparr>bannedUsers := us_insert (a ! 1) (bannedUsers s)\<rparr>"
  have "core (run_admin c a s) = core (if 0 < getUserSocket (a ! 1) s then ?t else s)"
    using ACmdBan by (simp add: run_admin_def core_ban)
  from abs_core[OF this] have eq: "abs_server (run_admin c a s) = abs_server (if 0 < getUserSocket (a ! 1) s then ?t else s)" .
  have "abs_server ?t = (abs_server (unregisterClient (a ! 1) s))\<lparr>banned := insert (a ! 1) (banned (abs_server s))\<rparr>"
    by (simp add: abs_server_def pending_def us_insert_def insert_absorb)
  then have "abs_server ?t = (let t = (abs_server s)\<lparr>members := (members (abs_server s))(a ! 1 := None)\<rparr>
      in t\<lparr>banned := insert (a ! 1) (banned t)\<rparr>)"
    by (simp add: abs_unregister Let_def)
  moreover have "rtranclp chat_step (abs_server s) (let t = (abs_server s)\<lparr>members := (members (abs_server s))(a ! 1 := None)\<rparr>
      in t\<lparr>banned := insert (a ! 1) (banned t)\<rparr>)"
    unfolding Let_def by (rule rtranclp.rtrancl_into_rtrancl[OF r_into_rtranclp[where r = chat_step, OF chat_step.leaves] chat_step.bans])
  ultimately show ?thesis unfolding eq by simp
next
  case ACmdUnban
  have "core (run_admin c a s) = core (s\<lparr>bannedUsers := us_erase (a ! 1) (bannedUsers s)\<rparr>)"
    using ACmdUnban by (simp add: run_admin_def core_unban)
  from abs_core[OF this] have "abs_server (run_admin c a s) = (abs_server s)\<lparr>banned := banned (abs_server s) - {a ! 1}\<rparr>"
    by (auto simp: abs_server_def pending_def us_erase_def)
  then show ?thesis by (auto intro: chat_step.unbans)
next
  case ACmdSet
  have "core (run_admin c a s) = core (snd (config_set (a ! 1) (a ! 2) s))"
    using ACmdSet core_set by (simp add: run_admin_def)
  moreover have "abs_server (snd (config_set (a ! 1) (a ! 2) s)) = abs_server s" by (simp add: abs_server_def pending_def)
  ultimately show ?thesis using abs_core by (metis rtranclp.rtrancl_refl)
next
  case ACmdReset
  have "core (run_admin c a s) = core (config_reset s)" using ACmdReset core_reset by (simp add: run_admin_def)
  moreover have "abs_server (config_reset s) = abs_server s" by (simp add: abs_server_def pending_def)
  ultimately show ?thesis using abs_core by (metis rtranclp.rtrancl_refl)
next
  case ACmdStop
  let ?t = "(print (''Stopping server...'' @ [NL]) s)\<lparr>adminRunning := False\<rparr>"
  have "abs_server ?t = abs_server s" by (simp add: abs_server_def pending_def)
  moreover have "bannedUsers (Server_stop t) = bannedUsers t" for t
    by (simp add: Server_stop_def Let_def fold_close_banned)
  then have "abs_server (Server_stop t) = abs_server t \<or> abs_server (Server_stop t) = (abs_server t)\<lparr>members := Map.empty\<rparr>" for t
    using dispatching_cong(2)[OF Server_stop_fields(1), of t] by (simp add: abs_server_def Server_stop_fields)
  ultimately show ?thesis
    using ACmdStop by (metis run_admin_stop chat_step.closes r_into_rtranclp rtranclp.rtrancl_refl)
qed (rule abs_same, simp add: run_admin_def)+

lemma admin_line_core: "\<exists>t. core (admin_line l s) = core t \<and> (t = s \<or> (\<exists>c a. t = run_admin c a s))"
proof -
  have c: "\<exists>t. core (run_admin c a s) = core t \<and> (t = s \<or> (\<exists>c a. t = run_admin c a s))"
    "\<exists>t. core (print x (run_admin c a s)) = core t \<and> (t = s \<or> (\<exists>c a. t = run_admin c a s))"
    "\<exists>t. core (print x s) = core t \<and> (t = s \<or> (\<exists>c a. t = run_admin c a s))" for c a x
    by (intro exI conjI, rule refl, blast | intro exI conjI, rule core_print, blast)+
  then show ?thesis
    unfolding admin_line_def Let_def by (auto split: list.split option.split if_split)
qed

lemma abs_admin_pass:
  assumes "server_inv s" and "admin_pass s = Some s'"
  shows "rtranclp chat_step (abs_server s) (abs_server s')"
proof -
  from assms(2) obtain l i where s': "s' = admin_line l (s\<lparr>cin := i\<rparr>)"
    by (auto simp: admin_pass_def split: if_splits prod.splits)
  have inv: "server_inv (s\<lparr>cin := i\<rparr>)" by (rule server_inv_keep[OF assms(1)]) simp_all
  have "abs_server (s\<lparr>cin := i\<rparr>) = abs_server s" by (simp add: abs_server_def pending_def)
  moreover obtain t where "core s' = core t" "t = s\<lparr>cin := i\<rparr> \<or> (\<exists>c a. t = run_admin c a (s\<lparr>cin := i\<rparr>))"
    using admin_line_core[of l "s\<lparr>cin := i\<rparr>"] s' by blast
  moreover have "abs_server s' = abs_server t" using calculation(2) by (rule abs_core)
  ultimately show ?thesis using abs_run_admin[OF inv] by auto
qed

section \<open>The simulation\<close>

lemma server_step_sim:
  "server_step s t \<Longrightarrow> server_inv s \<Longrightarrow> rtranclp chat_step (abs_server s) (abs_server t)"
  by (induction rule: server_step.induct)
     (auto simp: abs_ping intro: abs_admin_pass line_step_chat
      abs_same core_accept core_sleep_env dest: client_pass_line)

text \<open>What the parts of the handlers hold.\<close>

fun letters :: "handler_part \<Rightarrow> letter multiset" where
  "letters (Sending m k) = {#if msg_to m = ''all'' then Draft m else Copy m#}"
| "letters (Copying ms k) = mset (map Copy ms)"
| "letters _ = {#}"

definition abs_system :: "system \<Rightarrow> room" where
  "abs_system y = (abs_server (server_of y), sum_list (map letters (parts y)))"

lemma abs_queue:
  assumes "dispatching s"
  shows "abs_server (snd (server_queue m s)) = (abs_server s)
    \<lparr>mailbox := mailbox (abs_server s) @ (if length (mailbox (abs_server s)) < 10000 then [m] else [])\<rparr>"
  using sq.offer_contents[OF assms] by (simp add: abs_server_def)

lemma room_queue:
  assumes "dispatching s"
  shows "room_step (abs_server s, add_mset (Copy m) D) (abs_server (snd (server_queue m s)), D)"
proof (cases "length (mailbox (abs_server s)) < 10000")
  case True
  then show ?thesis unfolding abs_queue[OF assms] by (simp add: room_step.arrives)
next
  case False
  then have "room_step (abs_server s, add_mset (Copy m) D) (abs_server s, D)" by (simp add: room_step.is_lost)
  with False show ?thesis unfolding abs_queue[OF assms] by simp
qed

lemma abs_receive: "ns_receive ns s = (r, ns', s') \<Longrightarrow> abs_server s' = abs_server s"
  by (erule ns_receive_rx) (simp add: abs_server_def pending_def)

lemma abs_check: "connect_check a k s = (r, s') \<Longrightarrow> abs_server s' = abs_server s"
  using connect_check_frame(1,2,5)[of a k s] by (auto simp: abs_server_def intro: dispatching_cong(2))

lemma command_start_sim:
  assumes "server_inv s" and "command_start cmd a k s = Some (p, s')"
  shows "rtranclp room_step (abs_server s, D) (abs_server s', letters p + D)"
proof (cases cmd)
  case CmdConnect
  with assms(2) have "\<exists>r. connect_check a k s = (r, s')" "letters p = {#}"
    by (auto simp: command_start_def Let_def split: prod.splits option.splits)
  with abs_check show ?thesis by auto
next
  case CmdSend
  with assms(2) obtain m where c: "send_check a k s = (Some m, s')" and p: "p = Sending m k"
    by (auto simp: command_start_def Let_def split: prod.splits option.splits)
  note c = send_check_Some[OF c]
  have "members (abs_server s) (msg_from m) \<noteq> None"
    using abs_username(1)[OF assms(1), of k] c(1,2) by (simp add: send_accepted_def the_message_def)
  moreover have "msg_to m = ''all'' \<or> members (abs_server s) (msg_to m) \<noteq> None"
    using c(4) by (auto simp: abs_socket split: option.splits)
  moreover have "abs_server s' = abs_server s"
    unfolding c(3) by (simp add: abs_server_def incrementMessagesReceived_def pending_def)
  ultimately show ?thesis by (auto simp: p intro: room_step.writes room_step.writes_all)
qed (use assms(2) in \<open>auto simp: command_start_def Let_def split: if_splits\<close>)

lemma handler_start_sim:
  assumes "server_inv s" and "handler_start k s = Some (p, s')"
  shows "rtranclp room_step (abs_server s, D) (abs_server s', letters p + D)"
  using handler_start_cases[OF assms(2)] inv_receive[OF assms(1)] abs_receive[of _ s] command_start_sim
  by metis

lemma handler_next_sim:
  assumes "server_inv s" and "part_ok p" and "handler_next p s = (r, s')"
  shows "rtranclp room_step (abs_server s, letters p + D) (abs_server s', (case r of None \<Rightarrow> {#} | Some q \<Rightarrow> letters q) + D)"
  using assms
proof (induction p s rule: handler_next.induct)
  case (1 u k s)
  have "abs_server (connect_register u k s) = (abs_server s)\<lparr>members := (members (abs_server s))(u \<mapsto> k)\<rparr>"
    using dispatching_cong(2)[of "connect_register u k s" s] by (simp add: abs_server_def fun_eq_iff)
  moreover have "chat_step (abs_server s) \<dots>" using 1 by (auto intro: chat_step.joins)
  ultimately have "room_step (abs_server s, D) (abs_server (connect_register u k s), D)" by (simp add: room_step.chats)
  with 1 show ?case by auto
next
  case (2 u k s)
  have "abs_server (connect_answer u k s) = abs_server s"
    using dispatching_cong(2)[of "connect_answer u k s" s] by (simp add: abs_server_def)
  with 2 show ?case by auto
next
  case (3 m k s)
  have d: "dispatching s" and v: "um_valid (clients s)" using 3(1) by (simp_all add: server_inv_def)
  show ?case
  proof (cases "msg_to m = ''all''")
    case True
    let ?s = "LOG_INFO (''Broadcast from '' @ msg_from m) s"
    have a: "abs_server ?s = abs_server s" by (rule abs_core) simp
    have "posts (abs_server ?s) m (recipients_of m (getAllClients ?s))"
      using posts_recipients[of ?s m "''all''"] v True by simp
    with room_step.addresses[OF this True, of D] a 3 True show ?thesis by (auto simp: Let_def)
  next
    case False
    have "abs_server (send_commit m k s) = abs_server (snd (server_queue m s))"
      using dispatching_cong(2)[OF send_commit_one[OF False]] by (simp add: abs_server_def)
    with room_queue[OF d, of m D] 3 False show ?thesis by auto
  qed
next
  case (4 m ms k s)
  then have "dispatching s" by (simp add: server_inv_def)
  from room_queue[OF this, of m "mset (map Copy ms) + D"] 4 show ?case by auto
next
  case (5 k s)
  have "abs_server (sendOK k ''Broadcast sent'' s) = abs_server s" by (rule abs_core) simp
  with 5 show ?case by auto
next
  case (6 u k s)
  have "abs_server (disconnect_commit u k s) = abs_server (unregisterClient u s)"
    by (rule abs_core) (simp add: disconnect_commit_eq)
  with 6 show ?case by (auto simp: abs_unregister intro: room_step.chats chat_step.leaves)
next
  case (7 u s)
  have "map_option socket (map_of (clients (pong_commit u s)) v) = map_option socket (map_of (clients s) v)" for v
    by (simp add: pong_commit_def updateClientPong_def split: option.split)
  moreover have "pending (pong_commit u s) = pending s" by (rule dispatching_cong(2)) (simp add: pong_commit_def)
  ultimately have "abs_server (pong_commit u s) = abs_server s" by (simp add: abs_server_def pong_commit_def)
  with 7 show ?case by auto
qed

lemma system_step_sim:
  "system_step y z \<Longrightarrow> system_inv y \<Longrightarrow> rtranclp room_step (abs_system y) (abs_system z)"
proof (induction rule: system_step.induct)
  case (atomic y s')
  then show ?case by (simp add: abs_system_def system_inv_def server_step_sim chat_room)
next
  case (handler_starts y k p s')
  with handler_start_sim[of "server_of y" k p s'] show ?case by (simp add: abs_system_def system_inv_def)
next
  case (handler_goes_on y ps p qs q s')
  with handler_next_sim[of "server_of y" p "Some q" s' "sum_list (map letters ps) + sum_list (map letters qs)"]
  show ?case by (simp add: abs_system_def system_inv_def ac_simps)
next
  case (handler_ends y ps p qs s')
  with handler_next_sim[of "server_of y" p None s' "sum_list (map letters ps) + sum_list (map letters qs)"]
  show ?case by (simp add: abs_system_def system_inv_def ac_simps)
next
  case (dispatcher_takes y m s')
  from abs_take[OF dispatcher_takes(3)] show ?case
    by (elim exE conjE) (simp add: abs_system_def r_into_rtranclp room_step.chats chat_step.delivers)
next
  case (heartbeat_scans y us s')
  with abs_core[OF core_scan[of "server_of y"]] show ?case by (simp add: abs_system_def)
next
  case (heartbeat_drops y u us)
  with abs_drop[of "server_of y" u] show ?case by (simp add: abs_system_def system_inv_def chat_room)
qed (simp add: abs_system_def abs_deliver)

interpretation chat: simulation system_step system_inv room_step abs_system
  by unfold_locales (rule system_step_sim)

section \<open>Where a queued message comes from\<close>

lemma posted_from:
  assumes "chat_command n l now cmd args k t t'" and "m \<in> set (mailbox t')" and "m \<notin> set (mailbox t)"
  shows "members t (msg_from m) = Some k \<and> 3 \<le> length args \<and> timestamp m = now \<and>
    subject m = sanitize (args ! 1) \<and> body m = sanitize (args ! 2)"
proof -
  have send: "cmd = ''SEND''" using assms by (auto simp: chat_command_def split: if_splits)
  obtain u copies where u: "members t u = Some k" and len: "3 \<le> length args"
    and p: "posts t \<lparr>msg_from = u, msg_to = sanitize (args ! 0), subject = sanitize (args ! 1),
                  body = sanitize (args ! 2), timestamp = now\<rparr> copies" (is "posts t ?l copies")
    and t': "t' = t\<lparr>mailbox := mailbox t @ take (10000 - length (mailbox t)) copies\<rparr>"
    using assms unfolding send by (auto simp: chat_command_def split: if_splits)
  have "m \<in> set copies" using assms(2,3) unfolding t' by (auto dest: in_set_takeD)
  moreover have "msg_from c = u \<and> subject c = subject ?l \<and> body c = body ?l \<and> timestamp c = now" if "c \<in> set copies" for c
  proof (cases "msg_to ?l = ''all''")
    case True
    with p that have "c\<lparr>msg_to := ''all''\<rparr> = ?l" by (simp add: posts_def)
    then show ?thesis by (cases c) simp
  next
    case False
    with p that have "c = ?l" by (auto simp: posts_def split: option.splits if_splits)
    then show ?thesis by simp
  qed
  ultimately show ?thesis using u len by simp
qed

lemma dispatcher_core: "core s = core t \<Longrightarrow> dispatcher s = dispatcher t"
  by (simp add: core_def)

lemma run_admin_dispatcher: "dispatcher (run_admin c a s) = dispatcher s"
proof (cases c)
  case ACmdKick
  have "core (cmdKick a s) = core (if 0 < getUserSocket (a ! 1) s then unregisterClient (a ! 1) s else s)"
    by (simp add: core_kick)
  from dispatcher_core[OF this] ACmdKick show ?thesis by (simp add: run_admin_def)
next
  case ACmdBan
  have "core (cmdBan a s) = core (if 0 < getUserSocket (a ! 1) s
      then (unregisterClient (a ! 1) s)\<lparr>bannedUsers := us_insert (a ! 1) (bannedUsers s)\<rparr> else s)"
    by (simp add: core_ban)
  from dispatcher_core[OF this] ACmdBan show ?thesis by (simp add: run_admin_def)
next
  case ACmdUnban
  with dispatcher_core[OF core_unban[of a s]] show ?thesis by (simp add: run_admin_def)
next
  case ACmdSet
  with dispatcher_core[OF core_set[of a s]] show ?thesis by (simp add: run_admin_def)
next
  case ACmdReset
  with dispatcher_core[OF core_reset[of s]] show ?thesis by (simp add: run_admin_def)
next
  case ACmdStop
  then show ?thesis by (simp add: run_admin_stop Server_stop_fields)
qed (rule dispatcher_core, simp add: run_admin_def)+

lemma received_line:
  assumes "ns_receive (NetworkStream k) s = (Some raw, ns, s1)"
  shows "rx s1 k = drop (length raw + 4) (rx s k)"
  using ns_receive_shrinks(2)[OF assms] by (simp add: NetworkStream_def)

lemma client_pass_rx:
  assumes "client_pass k (NetworkStream k) s = (r, s')" and "fst (ns_receive (NetworkStream k) s) = Some raw"
    and "s' \<noteq> s"
  shows "rx s' k = drop (length raw + 4) (rx s k)"
proof -
  obtain ns s1 where recv: "ns_receive (NetworkStream k) s = (Some raw, ns, s1)"
    using assms(2) by (cases "ns_receive (NetworkStream k) s") auto
  from received_line[OF recv] recv assms(1,3) show ?thesis
    by (auto simp: client_pass_def Let_def split: if_splits)
qed

lemma new_message_step:
  assumes "server_step s t" and "server_inv s" and "m \<in> set (pending t)" and "m \<notin> set (pending s)"
  shows "\<exists>k raw. getUserSocket (msg_from m) s = k \<and>
    fst (ns_receive (NetworkStream k) s) = Some raw \<and> rx t k = drop (length raw + 4) (rx s k) \<and>
    subject m = sanitize (arguments (parse raw) ! 1) \<and> body m = sanitize (arguments (parse raw) ! 2)"
  using assms
proof (induction rule: server_step.induct)
  case (client k s r s')
  from client_pass_line[OF client(2,1)] obtain args
    where ls: "line_step k args (abs_server s) (abs_server s')"
      and raw: "args \<noteq> [] \<longrightarrow> (\<exists>raw. fst (ns_receive (NetworkStream k) s) = Some raw \<and> args = arguments (parse raw))"
    by blast
  from ls obtain n l now cmd where cc: "chat_command n l now cmd args k (abs_server s) (abs_server s')"
    unfolding line_step_def by blast
  from posted_from[OF cc, of m] client have p: "members (abs_server s) (msg_from m) = Some k" "3 \<le> length args"
    "subject m = sanitize (args ! 1)" "body m = sanitize (args ! 2)"
    by (simp_all add: abs_server_def)
  from p(1) have "getUserSocket (msg_from m) s = k" by (simp add: abs_socket)
  moreover from p(2) raw obtain raw where r: "fst (ns_receive (NetworkStream k) s) = Some raw" "args = arguments (parse raw)"
    by fastforce
  moreover have "rx s' k = drop (length raw + 4) (rx s k)" by (rule client_pass_rx[OF client(1) r(1)]) (use client in auto)
  ultimately show ?case using p(3,4) by blast
next
  case (accept s s')
  with dispatching_cong(2)[OF dispatcher_core[OF core_accept[OF accept(1)]]] show ?case by simp
next
  case (ping s)
  with dispatching_cong(2)[OF ping_clients_fields(2)[of s]] show ?case by simp
next
  case (admin s s')
  from admin(1) obtain l i where s': "s' = admin_line l (s\<lparr>cin := i\<rparr>)"
    by (auto simp: admin_pass_def split: if_splits prod.splits)
  obtain t where "core s' = core t" "t = s\<lparr>cin := i\<rparr> \<or> (\<exists>c a. t = run_admin c a (s\<lparr>cin := i\<rparr>))"
    using admin_line_core[of l "s\<lparr>cin := i\<rparr>"] s' by blast
  then have "dispatcher s' = dispatcher s" using dispatcher_core[of s' t] run_admin_dispatcher by auto
  with dispatching_cong(2)[OF this] admin show ?case by simp
next
  case (env s s')
  with dispatching_cong(2)[OF dispatcher_core[OF core_sleep_env[OF env(1)]]] show ?case by simp
qed

text \<open>
  Who wrote a message: the line it came in with, read from the connection that is registered
  in its name at that moment.
\<close>

definition authored :: "system \<Rightarrow> Message \<Rightarrow> bool" where
  "authored y0 m \<longleftrightarrow> (\<exists>y1 y2 k raw. rtranclp system_step y0 y1 \<and> system_step y1 y2 \<and>
     getUserSocket (msg_from m) (server_of y1) = k \<and> fst (ns_receive (NetworkStream k) (server_of y1)) = Some raw \<and>
     rx (server_of y2) k = drop (length raw + 4) (rx (server_of y1) k) \<and>
     subject m = sanitize (arguments (parse raw) ! 1) \<and> body m = sanitize (arguments (parse raw) ! 2))"

lemma authored_copy [simp]: "authored y0 (m\<lparr>msg_to := v\<rparr>) = authored y0 m"
  by (simp add: authored_def)

text \<open>The messages the server holds: queued, taken, or in the hands of a handler.\<close>

fun part_messages :: "handler_part \<Rightarrow> Message list" where
  "part_messages (Sending m k) = [m]"
| "part_messages (Copying ms k) = ms"
| "part_messages _ = []"

definition held :: "system \<Rightarrow> Message set" where
  "held y = set (pending (server_of y)) \<union> set_option (in_flight y) \<union> (\<Union>p\<in>set (parts y). set (part_messages p))"

lemma handler_next_messages:
  assumes "dispatching s" and "handler_next p s = (r, s')"
  shows "set (pending s') \<subseteq> set (pending s) \<union> set (part_messages p)"
    and "\<forall>q x. r = Some q \<and> x \<in> set (part_messages q) \<longrightarrow> (\<exists>m\<in>set (part_messages p). \<exists>v. x = m\<lparr>msg_to := v\<rparr>)"
proof -
  have same: "x = x\<lparr>msg_to := msg_to x\<rparr>" for x :: Message by simp
  show "set (pending s') \<subseteq> set (pending s) \<union> set (part_messages p)"
    using assms(2,1)
  proof (induction p s rule: handler_next.induct)
    case (1 u k s)
    then show ?case using dispatching_cong(2)[of s' s] by auto
  next
    case (2 u k s)
    then show ?case using dispatching_cong(2)[of s' s] by auto
  next
    case (3 m k s)
    show ?case
    proof (cases "msg_to m = ''all''")
      case True
      with 3 dispatching_cong(2)[of s' s] show ?thesis by (auto simp: Let_def)
    next
      case False
      with 3(1) dispatching_cong(2)[OF send_commit_one[OF False], of k s] sq.offer_contents[OF 3(2), of m]
      show ?thesis by (auto split: if_splits)
    qed
  next
    case (4 m ms k s)
    with sq.offer_contents[OF 4(2), of m] show ?case by (auto split: if_splits)
  next
    case (5 k s)
    then show ?case using dispatching_cong(2)[of s' s] by auto
  next
    case (6 u k s)
    then show ?case using dispatching_cong(2)[of s' s] by (auto simp: disconnect_commit_eq)
  next
    case (7 u s)
    then show ?case using dispatching_cong(2)[of s' s] by (auto simp: pong_commit_def)
  qed
  show "\<forall>q x. r = Some q \<and> x \<in> set (part_messages q) \<longrightarrow> (\<exists>m\<in>set (part_messages p). \<exists>v. x = m\<lparr>msg_to := v\<rparr>)"
    using assms(2)
  proof (induction p s rule: handler_next.induct)
    case (4 m ms k s)
    show ?case
    proof (intro allI impI)
      fix q x assume "r = Some q \<and> x \<in> set (part_messages q)"
      with 4 have "x \<in> set ms" by auto
      with same[of x] show "\<exists>m'\<in>set (part_messages (Copying (m # ms) k)). \<exists>v. x = m'\<lparr>msg_to := v\<rparr>"
        by (intro bexI[of _ x] exI[of _ "msg_to x"]) simp_all
    qed
  qed (auto simp: recipients_of_def Let_def split: if_splits)
qed

lemma handler_start_messages:
  assumes "handler_start k s = Some (p, s')" and "server_inv s"
  shows "set (pending s') = set (pending s)"
    and "m \<in> set (part_messages p) \<Longrightarrow> \<exists>raw. getUserSocket (msg_from m) s = k \<and>
      fst (ns_receive (NetworkStream k) s) = Some raw \<and> rx s' k = drop (length raw + 4) (rx s k) \<and>
      subject m = sanitize (arguments (parse raw) ! 1) \<and> body m = sanitize (arguments (parse raw) ! 2)"
proof -
  obtain r ns s1 where recv: "ns_receive (NetworkStream k) s = (r, ns, s1)" by (metis prod_cases3)
  have a1: "abs_server s1 = abs_server s" by (rule abs_receive[OF recv])
  have start: "(\<exists>cmd a. command_start cmd a k s1 = Some (p, s') \<and>
      (r = None \<and> cmd = CmdDisconnect \<or> (\<exists>raw. r = Some raw \<and> a = command (parse raw) # arguments (parse raw))))"
    using handler_start_cases[OF assms(1)] recv by auto
  then obtain cmd a where c: "command_start cmd a k s1 = Some (p, s')" and
    line: "r = None \<and> cmd = CmdDisconnect \<or> (\<exists>raw. r = Some raw \<and> a = command (parse raw) # arguments (parse raw))" by blast
  have "abs_server s' = abs_server s1"
  proof (cases cmd)
    case CmdConnect
    with c show ?thesis by (auto simp: command_start_def Let_def intro: abs_check split: prod.splits option.splits)
  next
    case CmdSend
    with c obtain m where "send_check a k s1 = (Some m, s')"
      by (auto simp: command_start_def Let_def split: prod.splits option.splits)
    from send_check_Some(3)[OF this] show ?thesis by (simp add: abs_server_def incrementMessagesReceived_def pending_def)
  qed (use c in \<open>auto simp: command_start_def Let_def split: if_splits\<close>)
  with a1 have "mailbox (abs_server s') = mailbox (abs_server s)" by simp
  then show "set (pending s') = set (pending s)" by (simp add: abs_server_def)
  assume m: "m \<in> set (part_messages p)"
  with c have "cmd = CmdSend \<and> send_check a k s1 = (Some m, s')"
    by (cases cmd) (auto simp: command_start_def Let_def split: prod.splits option.splits if_splits)
  then have send: "cmd = CmdSend" "send_check a k s1 = (Some m, s')" by simp_all
  note sc = send_check_Some[OF send(2)]
  from line send(1) obtain raw where raw: "r = Some raw" "a = command (parse raw) # arguments (parse raw)" by auto
  have "members (abs_server s) (msg_from m) = Some k"
    using abs_username(1)[OF inv_receive[OF assms(2) recv], of k] sc(1,2) a1 by (simp add: send_accepted_def the_message_def)
  then have "getUserSocket (msg_from m) s = k" by (simp add: abs_socket)
  moreover have "rx s' k = drop (length raw + 4) (rx s k)"
    using received_line[OF recv[unfolded raw(1)]] sc(3) by (simp add: incrementMessagesReceived_def)
  moreover have "subject m = sanitize (arguments (parse raw) ! 1)" "body m = sanitize (arguments (parse raw) ! 2)"
    unfolding sc(2) the_message_def raw(2) by (simp_all add: numeral_eq_Suc)
  ultimately show "\<exists>raw. getUserSocket (msg_from m) s = k \<and>
      fst (ns_receive (NetworkStream k) s) = Some raw \<and> rx s' k = drop (length raw + 4) (rx s k) \<and>
      subject m = sanitize (arguments (parse raw) ! 1) \<and> body m = sanitize (arguments (parse raw) ! 2)"
    using recv raw(1) by auto
qed

lemma held_step:
  assumes "system_step y z" and "system_inv y" and "rtranclp system_step y0 y" and "\<forall>m\<in>held y. authored y0 m"
  shows "\<forall>m\<in>held z. authored y0 m"
proof -
  have wrote: "authored y0 m" if "\<exists>raw. getUserSocket (msg_from m) (server_of y) = k \<and>
      fst (ns_receive (NetworkStream k) (server_of y)) = Some raw \<and>
      rx (server_of z) k = drop (length raw + 4) (rx (server_of y) k) \<and>
      subject m = sanitize (arguments (parse raw) ! 1) \<and> body m = sanitize (arguments (parse raw) ! 2)" for k m
    unfolding authored_def using assms(1,3) that by blast
  from assms(1,2,4) wrote show ?thesis
  proof (induction rule: system_step.induct)
    case (atomic y s')
    then have inv: "server_inv (server_of y)" by (simp add: system_inv_def)
    have "authored y0 m" if "m \<in> set (pending s')" for m
    proof (cases "m \<in> set (pending (server_of y))")
      case True
      with atomic show ?thesis by (simp add: held_def)
    next
      case False
      from new_message_step[OF atomic(2) inv that False] show ?thesis by (elim exE, intro atomic(5)) auto
    qed
    with atomic show ?case by (auto simp: held_def)
  next
    case (handler_starts y k p s')
    then have inv: "server_inv (server_of y)" by (simp add: system_inv_def)
    note h = handler_start_messages[OF handler_starts(2) inv]
    have "authored y0 m" if "m \<in> set (part_messages p)" for m
      by (rule handler_starts(5)[of m k]) (use h(2)[OF that] in simp)
    with handler_starts(4) h(1) show ?case by (auto simp: held_def)
  next
    case (handler_goes_on y ps p qs q s')
    then have "dispatching (server_of y)" by (simp add: system_inv_def server_inv_def)
    note h = handler_next_messages[OF this handler_goes_on(3)]
    have mine: "authored y0 m" if "m \<in> set (part_messages p)" for m
      using handler_goes_on(2,5) that by (auto simp: held_def)
    have "authored y0 x" if "x \<in> set (part_messages q)" for x
      using h(2) that mine by (metis authored_copy)
    with mine h(1) handler_goes_on(2,5) show ?case by (auto simp: held_def)
  next
    case (handler_ends y ps p qs s')
    then have "dispatching (server_of y)" by (simp add: system_inv_def server_inv_def)
    note h = handler_next_messages(1)[OF this handler_ends(3)]
    with handler_ends(2,5) show ?case by (auto simp: held_def)
  next
    case (dispatcher_takes y m s')
    from abs_take[OF dispatcher_takes(3)] dispatcher_takes(5) show ?case by (auto simp: held_def abs_server_def)
  next
    case (dispatcher_delivers y m)
    then show ?case using dispatching_cong(2)[of "deliver m (server_of y)" "server_of y"] by (auto simp: held_def)
  next
    case (heartbeat_scans y us s')
    then show ?case using dispatching_cong(2)[OF scan_timeouts_fields(2)[of "server_of y"]] by (simp add: held_def)
  next
    case (heartbeat_drops y u us)
    then show ?case using dispatching_cong(2)[of "drop_client u (server_of y)" "server_of y"]
      by (simp add: drop_client_def Let_def held_def)
  qed
qed

lemma run_authored:
  assumes "rtranclp system_step y0 y" and "system_inv y0" and "held y0 = {}"
  shows "\<forall>m\<in>held y. authored y0 m"
  using assms(1)
proof (induction rule: rtranclp_induct)
  case (step y z)
  from held_step[OF step(2) sys.run_inv[OF step(1) assms(2)] step(1) step.IH] show ?case .
qed (simp add: assms(3))

lemma start_services_exited: "exited (start_services s) = exited s"
  by (simp add: start_services_def createServerThreads_def Let_def case_prod_beta Dispatcher_new_def
      loadBanlist_fields initializeCommands_fields)

lemma open_listener_exited: "exited (snd (open_listener PORT n s)) = exited s"
  by (simp add: open_listener_def prepare_start_def initializeConfig_def configure_socket_def Let_def)

section \<open>Properties\<close>



text \<open>Nobody can write in another's name. In every run from a state with the invariant in which no
  message is held, each message that is queued came in with one line: at some moment of the run a
  line was read from the connection that was then registered under the name the message
  gives as its sender, and subject and text are those of that line, sanitized.\<close>

theorem messages_authentic:
  assumes "system_inv y0" and "held y0 = {}" and "rtranclp system_step y0 y"
    and "m \<in> set (pending (server_of y))"
  shows "\<exists>y1 y2 k raw. rtranclp system_step y0 y1 \<and> system_step y1 y2 \<and>
    getUserSocket (msg_from m) (server_of y1) = k \<and>
    fst (ns_receive (NetworkStream k) (server_of y1)) = Some raw \<and>
    rx (server_of y2) k = drop (length raw + 4) (rx (server_of y1) k) \<and>
    subject m = sanitize (arguments (parse raw) ! 1) \<and> body m = sanitize (arguments (parse raw) ! 2)"
  using run_authored[OF assms(3,1,2)] assms(4) unfolding held_def authored_def by blast

text \<open>A server on which "al" and "bob" are online and a line from "al" to "bob" has arrived.\<close>

definition example_sending :: server where
  "example_sending = (initializeCommands (example_server [(''al'', online 4), (''bob'', online 7)]))
     \<lparr>rx := (\<lambda>_. encodeMessage (build ''SEND'' [''bob'', ''hi'', ''text''])),
      sendResult := (\<lambda>_ data. if length data \<le> 2147479552 then int (length data) else -1)\<rparr>"

lemma example_sending_simps:
  "clients example_sending = [(''al'', online 4), (''bob'', online 7)]" "status example_sending = RUNNING"
  "exited example_sending = None" "pending example_sending = []" "dispatching example_sending"
  "server_inv example_sending" "fdOpen example_sending 4"
  "rx example_sending 4 = encodeMessage (build ''SEND'' [''bob'', ''hi'', ''text'']) @ []"
  "map_of (commands example_sending) ''SEND'' = Some CmdSend" "sysClock example_sending = 0"
  "config example_sending = config (example_server [])"
proof -
  let ?e = "example_server [(''al'', online 4), (''bob'', online 7)]"
  have names: "name_ok ''al''" "name_ok ''bob''"
    by (simp_all add: name_ok_def username_char_def isalnum_def isalpha_def)
  then have "server_inv ?e" by (simp add: server_inv_def um_valid_def)
  then show "server_inv example_sending"
    by (rule server_inv_keep) (simp_all add: example_sending_def initializeCommands_fields)
  have "has_commands example_sending" by (simp add: has_commands_def example_sending_def initializeCommands_def)
  then show "map_of (commands example_sending) ''SEND'' = Some CmdSend" by (simp add: command_table)
  show "pending example_sending = []" "dispatching example_sending"
    using dispatching_cong(1,2)[of example_sending ?e]
    by (simp_all add: example_sending_def initializeCommands_fields)
  show "config example_sending = config (example_server [])"
    by (simp add: example_sending_def initializeCommands_fields example_server_def)
  show "fdOpen example_sending 4" by (simp add: example_sending_def initializeCommands_def example_server_def)
qed (simp_all add: example_sending_def initializeCommands_fields, simp_all add: initializeCommands_def)

lemma example_sending_run:
  obtains r t q where "client_pass 4 (NetworkStream 4) example_sending = (r, t)"
    and "t = handleSendMessage [''SEND'', ''bob'', ''hi'', ''text''] 4 (example_sending\<lparr>rx := q\<rparr>)"
    and "pending t = [\<lparr>msg_from = ''al'', msg_to = ''bob'', subject = ''hi'', body = ''text'', timestamp = 0\<rparr>]"
proof -
  note e = example_sending_simps
  let ?raw = "build ''SEND'' [''bob'', ''hi'', ''text'']" and ?a = "[''SEND'', ''bob'', ''hi'', ''text'']"
  have p: "parse ?raw = \<lparr>command = ''SEND'', arguments = [''bob'', ''hi'', ''text''], isValid = True\<rparr>"
    by (simp add: parse_build wf_fields_def)
  have sd: "sendable ?raw" by (simp add: sendable_def length_build MAX_MESSAGE_SIZE_def)
  define s1 where "s1 = example_sending\<lparr>rx := (rx example_sending)(4 := [])\<rparr>"
  have recv: "ns_receive (NetworkStream 4) example_sending = (Some ?raw, NetworkStream 4, s1)"
    unfolding s1_def using receive_frame[OF e(7) _ e(8) sd] by simp
  have s1: "clients s1 = clients example_sending" "sysClock s1 = 0" "commands s1 = commands example_sending"
    "dispatcher s1 = dispatcher example_sending" "config s1 = config (example_server [])"
    using e(10,11) by (simp_all add: s1_def)
  have s: "sanitize ''hi'' = ''hi''" "sanitize ''bob'' = ''bob''" "sanitize ''text'' = ''text''" by code_simp+
  have d: "dispatching s1" "pending s1 = []" using dispatching_cong(1,2)[OF s1(4)] e(4,5) by simp_all
  have u: "getUsernameBySocket 4 s1 = ''al''" "getUserSocket ''bob'' s1 = 7"
    using e(1) s1(1) by (simp_all add: getUsernameBySocket_def getUserSocket_def)
  have "isValidSubject ''hi'' s1" using validity_cong(2)[OF s1(5)] by (simp add: example_valid)
  then have acc: "send_accepted ?a 4 s1" by (simp add: send_accepted_def u s)
  have "pending (handleSendMessage ?a 4 s1) = [the_message ?a 4 s1]"
    using pending_handleSend(1)[OF d(1), of ?a 4] acc by (simp add: d(2) s u)
  moreover have "the_message ?a 4 s1 = \<lparr>msg_from = ''al'', msg_to = ''bob'', subject = ''hi'', body = ''text'', timestamp = 0\<rparr>"
    by (simp add: the_message_def u s s1(2))
  moreover have "client_pass 4 (NetworkStream 4) example_sending = (Some (NetworkStream 4), handleSendMessage ?a 4 s1)"
    using recv p e(2,9) s1(3) by (simp add: client_pass_def NetworkStream_def executeCommand_def run_command_def)
  ultimately show thesis using that s1_def by simp
qed

theorem messages_authentic_witness:
  "\<exists>y1 y2 raw. rtranclp system_step (idle_system example_sending) y1 \<and> system_step y1 y2 \<and>
     fst (ns_receive (NetworkStream (getUserSocket ''al'' (server_of y1))) (server_of y1)) = Some raw \<and>
     ''text'' = sanitize (arguments (parse raw) ! 2)"
proof -
  let ?m = "\<lparr>msg_from = ''al'', msg_to = ''bob'', subject = ''hi'', body = ''text'', timestamp = 0\<rparr>"
  obtain r t q where c: "client_pass 4 (NetworkStream 4) example_sending = (r, t)" and p: "pending t = [?m]"
    by (rule example_sending_run)
  have "system_step (idle_system example_sending) (idle_system t)"
    using system_step.atomic[of "idle_system example_sending" t] server_step.client[OF c] example_sending_simps(3) by simp
  then have run: "rtranclp system_step (idle_system example_sending) (idle_system t)" by blast
  have "system_inv (idle_system example_sending)" "held (idle_system example_sending) = {}"
    using example_sending_simps(4,6) by (simp_all add: system_inv_def held_def)
  from messages_authentic[OF this run, of ?m] show ?thesis using p by simp blast
qed

end
