(* ===== verification/Server_Protocol.thy ===== *)
theory Server_Protocol
  imports Server_System Message_Handler
begin

text \<open>
  What the server says: over every run of its threads, the bytes it puts on a socket are whole
  frames, one after the other, and each frame is a line that the client's \<open>parseMessage\<close>
  turns into an event.
\<close>

section \<open>The lines of the server\<close>

text \<open>Answers and pings; what the console sends; the third kind are messages (\<open>message_frame\<close>).\<close>

definition reply_line :: "string \<Rightarrow> bool" where
  "reply_line l \<longleftrightarrow> l = ''PING'' @ [NL] \<or> l = ''PONG'' @ [NL] \<or>
     (\<exists>x. l = build ''OK'' [x] \<or> l = build ''ERROR'' [x] \<or> l = build ''USERS'' [x] \<or> l = build ''LOG'' [x])"

definition notice_line :: "string \<Rightarrow> bool" where
  "notice_line l \<longleftrightarrow> (\<exists>b c. l = build ''MESSAGE'' [''SERVER'', b, c, ''0''])"

lemma reply_lines [simp, intro]:
  "reply_line (''PING'' @ [NL])" "reply_line (''PONG'' @ [NL])" "reply_line (build ''OK'' [x])"
  "reply_line (build ''ERROR'' [x])" "reply_line (build ''USERS'' [x])" "reply_line (build ''LOG'' [x])"
  "notice_line (build ''MESSAGE'' [''SERVER'', b, c, ''0''])"
  unfolding reply_line_def notice_line_def by blast+

text \<open>Fields may hold delimiters: the line then has more of them, never fewer.\<close>

lemma splitc_append_length: "length (splitc c (s @ c # t)) = length (splitc c s) + length (splitc c t)"
  by (simp add: length_splitc)

lemma length_splitc_join: "xs \<noteq> [] \<Longrightarrow> length xs \<le> length (splitc c (join [c] xs))"
proof (induction xs)
  case (Cons x xs)
  show ?case
  proof (cases xs)
    case Nil
    then show ?thesis by (simp add: Suc_le_eq)
  next
    case (Cons y ys)
    with Cons.IH have "length xs \<le> length (splitc c (join [c] xs))" by simp
    moreover have "1 \<le> length (splitc c x)" by (simp add: Suc_le_eq)
    moreover have "splitc c (join [c] (x # xs)) = splitc c (x @ c # join [c] xs)"
      using Cons by (simp add: join_Cons)
    ultimately show ?thesis by (simp add: splitc_append_length)
  qed
qed simp

lemma parse_build_fields:
  assumes "CHR '';'' \<notin> set cmd" and "args \<noteq> []"
  shows "isValid (parse (build cmd args)) \<and> command (parse (build cmd args)) = cmd \<and>
    length args \<le> argCount (parse (build cmd args))"
proof -
  let ?j = "join [CHR '';''] args"
  have j: "join [CHR '';''] (cmd # args) = cmd @ CHR '';'' # ?j"
    using assms(2) by (simp add: join_Cons)
  have "split (cmd @ CHR '';'' # ?j) [CHR '';''] = cmd # splitc (CHR '';'') ?j"
    using splitc_append[OF assms(1), of ?j] by (simp add: split_char)
  then show ?thesis
    using length_splitc_join[OF assms(2), of "CHR '';''"]
    by (simp add: parse_def butlast_build j MESSAGE_DELIMITER_def argCount_def)
qed

text \<open>A queued message has four fields on the wire, none with a delimiter.\<close>

lemma message_frame_fields:
  assumes "msg_ok m"
  shows "wf_fields (''MESSAGE'', [msg_from m, subject m, body m, timestampToUnixString (timestamp m)])"
  using assms name_ok_chars[of "msg_from m"]
  by (auto simp: wf_fields_def msg_ok_def timestampToUnixString_def text_simps)

text \<open>The client makes an event of every line of the server but the answer to a PING.\<close>

lemma parse_message_four: "\<exists>ev. parseMessage (build ''MESSAGE'' [a, b, c, d]) = Some ev"
  using parse_build_fields[of "''MESSAGE''" "[a, b, c, d]"] by (simp add: parseMessage_def Let_def)

lemma parse_reply:
  assumes "reply_line l"
  shows "l = ''PONG'' @ [NL] \<or> (\<exists>ev. parseMessage l = Some ev \<and> ev_type ev \<noteq> MESSAGE)"
proof -
  have one: "\<exists>ev. parseMessage (build c [x]) = Some ev \<and> ev_type ev \<noteq> MESSAGE"
    if "c \<in> {''OK'', ''ERROR'', ''USERS'', ''LOG''}" for c x
  proof -
    have "CHR '';'' \<notin> set c" using that by auto
    from parse_build_fields[OF this, of "[x]"] that show ?thesis by (auto simp: parseMessage_def Let_def)
  qed
  have ping: "\<exists>ev. parseMessage (''PING'' @ [NL]) = Some ev \<and> ev_type ev \<noteq> MESSAGE"
  proof -
    have "parse (''PING'' @ [NL]) = \<lparr>command = ''PING'', arguments = [], isValid = True\<rparr>"
      using parse_build[of "''PING''" "[]"] by (simp add: build_def wf_fields_def)
    then show ?thesis unfolding parseMessage_def Let_def by simp
  qed
  from assms show ?thesis
    unfolding reply_line_def
  proof (elim disjE exE)
    assume "l = ''PING'' @ [NL]"
    then show ?thesis using ping by (intro disjI2) (erule ssubst)
  qed (erule disjI1, (intro disjI2, erule ssubst, rule one, simp)+)
qed

lemma parse_server_line:
  assumes "reply_line l \<or> notice_line l \<or> (\<exists>m. l = message_frame m)"
  shows "l = ''PONG'' @ [NL] \<or> (\<exists>ev. parseMessage l = Some ev)"
proof -
  have "\<exists>ev. parseMessage l = Some ev" if "notice_line l \<or> (\<exists>m. l = message_frame m)"
    using that parse_message_four unfolding notice_line_def message_frame_def by metis
  with assms parse_reply[of l] show ?thesis by metis
qed

section \<open>What an operation says\<close>

text \<open>
  A kernel that takes what it is given, or nothing. On Linux one call takes at most
  \<open>0x7ffff000\<close> bytes.
\<close>

definition MAX_RW_COUNT :: nat where
  "MAX_RW_COUNT = 2147479552"

definition whole :: "'a process_scheme \<Rightarrow> bool" where
  "whole p \<longleftrightarrow> (\<forall>k data. sendResult p k data < 0 \<or>
     sendResult p k data = int (length data) \<and> length data \<le> MAX_RW_COUNT)"

text \<open>
  \<open>said L s t\<close>: from \<open>s\<close> to \<open>t\<close> only whole frames were written, each a reply or a line in \<open>L\<close>.
\<close>

definition line_ok :: "(string \<Rightarrow> bool) \<Rightarrow> string \<Rightarrow> bool" where
  "line_ok L m \<longleftrightarrow> (reply_line m \<or> L m) \<and> length (encodeMessage m) \<le> MAX_RW_COUNT"

definition said :: "(string \<Rightarrow> bool) \<Rightarrow> server \<Rightarrow> server \<Rightarrow> bool" where
  "said L s t \<longleftrightarrow> sendResult t = sendResult s \<and>
     (whole s \<longrightarrow> (\<exists>ms. wire t = wire s @ map (\<lambda>(k, m). (k, encodeMessage m)) ms \<and> (\<forall>(k, m)\<in>set ms. line_ok L m)))"

lemma said_refl [simp]: "said L s s"
  unfolding said_def by (auto intro: exI[of _ "[]"])

lemma said_quiet: "wire t' = wire t \<Longrightarrow> sendResult t' = sendResult t \<Longrightarrow> said L s t' = said L s t"
  by (simp add: said_def)

lemma wire_send_on: "sendResult t = sendResult s \<Longrightarrow> whole s \<Longrightarrow>
    wire (snd (send_on k m t)) = wire t \<or>
    wire (snd (send_on k m t)) = wire t @ [(k, encodeMessage m)] \<and> length (encodeMessage m) \<le> MAX_RW_COUNT"
proof -
  assume "sendResult t = sendResult s" and "whole s"
  then have "sendResult t k (encodeMessage m) < 0 \<or> sendResult t k (encodeMessage m) = int (length (encodeMessage m)) \<and> length (encodeMessage m) \<le> MAX_RW_COUNT"
    by (simp add: whole_def)
  then show ?thesis
    by (auto simp: send_on_def ns_send_def os_send_def NetworkStream_def Let_def)
qed

lemma said_send_on [simp]:
  assumes "said L s t" and "reply_line m \<or> L m"
  shows "said L s (snd (send_on k m t))"
proof -
  have "\<exists>ns. wire (snd (send_on k m t)) = wire s @ map (\<lambda>(k, m). (k, encodeMessage m)) ns \<and> (\<forall>(k, m)\<in>set ns. line_ok L m)"
    if w: "whole s"
  proof -
    from assms(1) w obtain ms where ms: "wire t = wire s @ map (\<lambda>(k, m). (k, encodeMessage m)) ms"
      "\<forall>(k, m)\<in>set ms. line_ok L m" by (auto simp: said_def)
    have "sendResult t = sendResult s" using assms(1) by (simp add: said_def)
    from wire_send_on[OF this w, of k m] show ?thesis
    proof
      assume "wire (snd (send_on k m t)) = wire t"
      with ms show ?thesis by auto
    next
      assume "wire (snd (send_on k m t)) = wire t @ [(k, encodeMessage m)] \<and> length (encodeMessage m) \<le> MAX_RW_COUNT"
      with ms assms(2) show ?thesis by (intro exI[of _ "ms @ [(k, m)]"]) (auto simp: line_ok_def)
    qed
  qed
  with assms(1) show ?thesis by (simp add: said_def)
qed

lemma said_fold:
  assumes "\<And>x t. said L s t \<Longrightarrow> said L s (f x t)"
  shows "said L s t \<Longrightarrow> said L s (fold f xs t)"
  by (induction xs arbitrary: t) (simp_all add: assms)

lemma said_fold_snd:
  assumes "\<And>x n t. said L s t \<Longrightarrow> said L s (snd (f x (n, t)))"
  shows "said L s t \<Longrightarrow> said L s (snd (fold f xs (n, t)))"
proof (induction xs arbitrary: n t)
  case (Cons x xs)
  obtain m t1 where fx: "f x (n, t) = (m, t1)" by force
  from assms[OF Cons.prems, of x n] fx have "said L s t1" by simp
  with Cons.IH fx show ?case by simp
qed simp

lemma said_quiet_ops [simp]:
  "said L s (logger_log l x t) = said L s t" "said L s (print y t) = said L s t" "said L s (os_close k t) = said L s t"
  "said L s (set_left t) = said L s t" "said L s (set_fill c t) = said L s t" "said L s (print_setw n y t) = said L s t"
  "said L s (sleep_ns d t) = said L s t" "said L s (snd (server_queue msg t)) = said L s t"
  "said L s (registerClient u k t) = said L s t"
  "said L s (unregisterClient u t) = said L s t" "said L s (updateClientPong u t) = said L s t"
  "said L s (saveBanlist t) = said L s t" "said L s (incrementMessagesReceived t) = said L s t"
  "said L s (incrementMessagesSent t) = said L s t"
  by (rule said_quiet; simp add: set_left_def set_fill_def print_setw_def registerClient_def unregisterClient_def
        updateClientPong_def saveBanlist_def incrementMessagesReceived_def incrementMessagesSent_def split: option.split)+

lemma said_broadcast [simp]: "said L s t \<Longrightarrow> said L s (broadcast msg rs t)"
  unfolding broadcast_fold by (rule said_fold) simp_all

lemma said_fields [simp]:
  "said L s (t\<lparr>rx := a\<rparr>) = said L s t" "said L s (t\<lparr>cin := i\<rparr>) = said L s t" "said L s (t\<lparr>clients := cs\<rparr>) = said L s t"
  "said L s (t\<lparr>status := st\<rparr>) = said L s t" "said L s (t\<lparr>dispatcher := d\<rparr>) = said L s t" "said L s (t\<lparr>sconfig := c\<rparr>) = said L s t"
  "said L s (t\<lparr>exited := x\<rparr>) = said L s t" "said L s (t\<lparr>adminRunning := b\<rparr>) = said L s t" "said L s (t\<lparr>bannedUsers := bs\<rparr>) = said L s t"
  "said L s (t\<lparr>incoming := q\<rparr>) = said L s t" "said L s (t\<lparr>threadPool := tp\<rparr>) = said L s t" "said L s (t\<lparr>fdOpen := fo\<rparr>) = said L s t"
  by (rule said_quiet; simp)+

section \<open>The client commands\<close>

lemma said_replies [simp]:
  "said L s t \<Longrightarrow> reply_line m \<or> L m \<Longrightarrow> said L s (sendResponse k m t)"
  "said L s t \<Longrightarrow> said L s (sendOK k x t)" "said L s t \<Longrightarrow> said L s (sendError k x t)"
  by (simp_all add: sendResponse_def sendOK_def sendError_def Let_def)

lemma said_connect_check [simp]: "said L s t \<Longrightarrow> said L s (snd (connect_check a k t))"
  by (simp add: connect_check_def Let_def)

lemma said_connect_commit [simp]:
  "said L s t \<Longrightarrow> said L s (connect_commit u k t)" "said L s (connect_register u k t) = said L s t"
  "said L s t \<Longrightarrow> said L s (connect_answer u k t)"
  by (simp_all add: connect_commit_def connect_register_def connect_answer_def)

lemma said_connect [simp]:
  assumes "said L s t"
  shows "said L s (handleConnect a k t)"
proof -
  obtain r t1 where c: "connect_check a k t = (r, t1)" by force
  with said_connect_check[OF assms, of a k] have "said L s t1" by simp
  with c show ?thesis by (simp add: handleConnect_def split: option.split)
qed

lemma said_disconnect [simp]: "said L s (handleDisconnect k t) = said L s t"
  by (simp add: handleDisconnect_eq)

lemma said_SEND [simp]: "said L s t \<Longrightarrow> said L s (handleSendMessage a k t)"
  unfolding handleSendMessage_eq Let_def case_prod_beta by simp

lemma said_queries [simp]:
  "said L s t \<Longrightarrow> said L s (handlePing k t)" "said L s t \<Longrightarrow> said L s (handlePong k t)"
  "said L s t \<Longrightarrow> said L s (handleListUsers k t)" "said L s t \<Longrightarrow> said L s (handleGetLog k t)"
  by (simp_all add: handlePing_def handlePong_def pong_commit_def handleListUsers_def handleGetLog_def Let_def
      del: append_Cons split: option.split)

lemma said_execute [simp]: "said L s t \<Longrightarrow> said L s (executeCommand c a k t)"
  by (simp add: executeCommand_def run_command_def split: option.split ClientCommand.split)

lemma said_client_pass:
  assumes "client_pass k ns s = (r, s')"
  shows "said L s s'"
proof -
  obtain m ns1 s1 where recv: "ns_receive ns s = (m, ns1, s1)" by (metis prod_cases3)
  from recv obtain q where "s1 = s\<lparr>rx := q\<rparr>" by (rule ns_receive_rx)
  then have "said L s s1" by simp
  with assms recv show ?thesis by (auto simp: client_pass_def Let_def split: if_splits option.splits)
qed

text \<open>The parts of the handlers.\<close>

lemma said_parts [simp]:
  "said L s t \<Longrightarrow> said L s (snd (send_check a k t))" "said L s t \<Longrightarrow> said L s (send_commit m k t)"
  "said L s (disconnect_commit u k t) = said L s t" "said L s (pong_commit u t) = said L s t"
  by (simp_all add: send_check_def send_commit_def disconnect_commit_eq pong_commit_def Let_def case_prod_beta)

lemma said_handler_next: "handler_next p t = (r, t') \<Longrightarrow> said L s t \<Longrightarrow> said L s t'"
  by (induction p t rule: handler_next.induct) (auto simp: Let_def split: if_splits)

lemma said_command_start: "command_start cmd a k t = Some (p, t') \<Longrightarrow> said L s t \<Longrightarrow> said L s t'"
proof -
  assume "command_start cmd a k t = Some (p, t')" and said: "said L s t"
  then have "t' = t \<or> t' = snd (connect_check a k t) \<or> t' = snd (send_check a k t)"
    by (auto simp: command_start_def Let_def split: ClientCommand.splits prod.splits option.splits if_splits)
  with said show "said L s t'" by auto
qed

lemma said_handler_start:
  assumes "handler_start k s = Some (p, s')"
  shows "said L s s'"
proof -
  have "said L s s1" if "ns_receive (NetworkStream k) s = (r, ns, s1)" for r ns s1
    using that by (rule ns_receive_rx) simp
  with handler_start_cases[OF assms] said_command_start show ?thesis by blast
qed

section \<open>The other threads\<close>

lemma said_accept: "accept_pass s = Some s' \<Longrightarrow> said L s s'"
  by (auto simp: accept_pass_def Let_def split: if_splits list.splits option.splits)

lemma said_take: "dispatch_take s = Some (m, s') \<Longrightarrow> said L s s'"
  by (auto simp: dispatch_take_def Let_def split: if_splits list.splits option.splits)

lemma said_deliver [simp]: "said L s t \<Longrightarrow> L (message_frame m) \<Longrightarrow> said L s (deliver m t)"
  by (simp add: deliver_def Let_def case_prod_beta undeliverable_def)

lemma said_scan: "said L s (snd (scan_timeouts s))"
  unfolding scan_timeouts_def Let_def snd_conv by (rule said_fold) (simp_all add: case_prod_beta)

lemma said_drop [simp]: "said L s (drop_client u t) = said L s t"
  by (simp add: drop_client_def Let_def)

lemma said_pings: "said L s (ping_clients s)"
  unfolding ping_clients_def Let_def said_fields by (rule said_fold) (simp_all add: case_prod_beta del: append_Cons)

lemma said_stop [simp]: "said L s t \<Longrightarrow> said L s (Server_stop t)"
proof -
  have "said L s v \<Longrightarrow> said L s (fold (\<lambda>(u, i). os_close (socket i)) cs v)" for cs :: "(string, ClientInfo) umap" and v
    by (rule said_fold) (simp_all add: case_prod_beta)
  then show "said L s t \<Longrightarrow> said L s (Server_stop t)" by (simp add: Server_stop_def Let_def)
qed

section \<open>The console\<close>

lemma said_disconnectUser [simp]: "said L s t \<Longrightarrow> said L s (snd (disconnectUser u r t))"
  by (simp add: disconnectUser_def Let_def)

lemma said_notice [simp]:
  "said L s t \<Longrightarrow> \<forall>l. notice_line l \<longrightarrow> L l \<Longrightarrow> said L s (snd (send_on k (build ''MESSAGE'' [''SERVER'', b, c, ''0'']) t))"
  by (rule said_send_on) auto

lemma said_send_all [simp]: "said L s t \<Longrightarrow> \<forall>l. notice_line l \<longrightarrow> L l \<Longrightarrow> said L s (snd (admin_send_all m rs t))"
  unfolding admin_send_all_def by (rule said_fold_snd) (simp_all add: case_prod_beta Let_def)

lemma said_listings [simp]:
  "said L s t \<Longrightarrow> said L s (cmdHelp t)" "said L s t \<Longrightarrow> said L s (cmdList t)" "said L s t \<Longrightarrow> said L s (cmdConfig t)"
  unfolding cmdHelp_def cmdList_def cmdConfig_def
  by (simp_all add: Let_def said_fold case_prod_beta)

lemma said_stats [simp]: "said L s t \<Longrightarrow> said L s (cmdStats t)"
proof -
  have "said L s t \<Longrightarrow> said L s (print_online rs t)" for rs t
    unfolding print_online_def by (rule said_fold_snd) (simp_all add: case_prod_beta)
  then show "said L s t \<Longrightarrow> said L s (cmdStats t)" by (simp add: cmdStats_def print_uptime_def Let_def)
qed

lemma said_run_admin [simp]:
  assumes "said L s t" and "\<forall>l. notice_line l \<longrightarrow> L l"
  shows "said L s (run_admin c a t)"
proof -
  have "said L s (snd (config_set x y t)) = said L s t" "said L s (config_reset t) = said L s t" for x y
    by (rule said_quiet; simp add: config_set_def validateValue_def config_reset_def Let_def split: option.split)+
  with assms show ?thesis
    by (cases c) (simp_all add: run_admin_def cmdBroadcast_def cmdSend_def cmdKick_def cmdBan_def cmdUnban_def
        cmdSet_def cmdReset_def cmdStop_def banlistAdd_def banlistRemove_def Let_def case_prod_beta)
qed

lemma said_admin_pass:
  assumes "admin_pass s = Some s'" and "\<forall>l. notice_line l \<longrightarrow> L l"
  shows "said L s s'"
proof -
  have "said L s t \<Longrightarrow> said L s (admin_line l t)" for l t
    using assms(2) unfolding admin_line_def Let_def by (auto split: list.split option.split if_split)
  with assms(1) show ?thesis by (auto simp: admin_pass_def split: if_splits prod.splits)
qed

section \<open>Runs\<close>

text \<open>Later bytes follow earlier ones.\<close>

definition speaks :: "(string \<Rightarrow> bool) \<Rightarrow> server \<Rightarrow> server \<Rightarrow> bool" where
  "speaks L s t \<longleftrightarrow> (\<exists>ms. wire t = wire s @ map (\<lambda>(k, m). (k, encodeMessage m)) ms \<and> (\<forall>(k, m)\<in>set ms. line_ok L m))"

lemma speaks_trans:
  assumes "speaks L s t" and "speaks L t u"
  shows "speaks L s u"
proof -
  from assms obtain ms ns where "wire t = wire s @ map (\<lambda>(k, m). (k, encodeMessage m)) ms" "\<forall>(k, m)\<in>set ms. line_ok L m"
    "wire u = wire t @ map (\<lambda>(k, m). (k, encodeMessage m)) ns" "\<forall>(k, m)\<in>set ns. line_ok L m"
    by (auto simp: speaks_def)
  then show ?thesis unfolding speaks_def by (intro exI[of _ "ms @ ns"]) auto
qed

lemma speaks_refl [simp]: "speaks L s s"
  unfolding speaks_def by (intro exI[of _ "[]"]) simp

lemma speaks_mono: "speaks L s t \<Longrightarrow> (\<And>l. L l \<Longrightarrow> L' l) \<Longrightarrow> speaks L' s t"
  unfolding speaks_def line_ok_def by fast

lemma said_speaks: "said L s t \<Longrightarrow> whole s \<Longrightarrow> speaks L s t"
  by (simp add: said_def speaks_def)

lemma env_speaks: "environment s t \<Longrightarrow> speaks L s t"
proof -
  assume "environment s t"
  from arg_cong[OF this[unfolded environment_def], of wire] have "wire t = wire s" by simp
  then show ?thesis unfolding speaks_def by (intro exI[of _ "[]"]) simp
qed

text \<open>What the server may say next: besides replies, notices and the message in flight.\<close>

definition may_say :: "system \<Rightarrow> string \<Rightarrow> bool" where
  "may_say y l \<longleftrightarrow> notice_line l \<or> (\<exists>m. in_flight y = Some m \<and> l = message_frame m)"

lemma server_step_speaks: "server_step s t \<Longrightarrow> whole s \<Longrightarrow> speaks notice_line s t"
  by (induction rule: server_step.induct)
     (auto intro: said_speaks said_accept said_client_pass said_pings said_admin_pass env_speaks)

lemma system_step_speaks:
  "system_step y z \<Longrightarrow> whole (server_of y) \<Longrightarrow> speaks (may_say y) (server_of y) (server_of z)"
proof (induction rule: system_step.induct)
  case (atomic y s')
  from speaks_mono[OF server_step_speaks[OF atomic(2,3)]] show ?case by (simp add: may_say_def)
next
  case (handler_starts y k p s')
  with said_handler_start[of k "server_of y" p s' "may_say y"] show ?case by (simp add: said_speaks)
next
  case (handler_goes_on y ps p qs q s')
  with said_handler_next[of p "server_of y" "Some q" s' "may_say y" "server_of y"] show ?case by (simp add: said_speaks)
next
  case (handler_ends y ps p qs s')
  with said_handler_next[of p "server_of y" None s' "may_say y" "server_of y"] show ?case by (simp add: said_speaks)
next
  case (heartbeat_scans y us s')
  with said_scan[of "may_say y" "server_of y"] show ?case by (simp add: said_speaks)
qed (simp_all add: said_speaks said_take may_say_def)

text \<open>The bytes for one socket.\<close>

lemma speaks_sent_to:
  assumes "speaks L s t"
  shows "\<exists>ls. sent_to k t = sent_to k s @ concat (map encodeMessage ls) \<and> (\<forall>l\<in>set ls. line_ok L l)"
proof -
  from assms obtain ms where ms: "wire t = wire s @ map (\<lambda>(k, m). (k, encodeMessage m)) ms" "\<forall>(k, m)\<in>set ms. line_ok L m"
    by (auto simp: speaks_def)
  let ?ls = "map snd (filter (\<lambda>e. fst e = k) ms)"
  have "concat (map snd (filter (\<lambda>e. fst e = k) (map (\<lambda>(k, m). (k, encodeMessage m)) ms))) = concat (map encodeMessage ?ls)"
    by (induction ms) auto
  with ms show ?thesis by (intro exI[of _ ?ls]) (auto simp: sent_to_def)
qed

section \<open>Properties\<close>


definition whole_sends :: "server \<Rightarrow> server" where
  "whole_sends s = s\<lparr>sendResult := (\<lambda>_ data. if length data \<le> MAX_RW_COUNT then int (length data) else -1)\<rparr>"

lemma whole_sends_simps [simp]:
  "whole (whole_sends s)" "exited (whole_sends s) = exited s" "status (whole_sends s) = status s"
  by (simp_all add: whole_sends_def whole_def)


end
