(* ===== verification/End_To_End.thy ===== *)
theory End_To_End
  imports Chat_Refinement Server_Protocol Client "HOL-Library.Multiset"
begin

text \<open>
  The server, a network connection and the client at its other end as one transition system,
  and what the client's inbox holds after any run of the three: each message once, in order,
  as some user has written it.
\<close>

section \<open>The connection\<close>

text \<open>
  \<open>carried\<close>: how many of the bytes the server has put on its end have arrived. The listener is
  blocked until a whole frame is there; a stream that ends in the middle of one stores
  nothing more.
\<close>

record link =
  sys :: system
  peer :: client
  handler :: MessageHandler
  carried :: nat

inductive link_step :: "fd \<Rightarrow> fd \<Rightarrow> link \<Rightarrow> link \<Rightarrow> bool" for k fd where
  serves: "system_step (sys x) y \<Longrightarrow> whole (server_of (sys x)) \<Longrightarrow> link_step k fd x (x\<lparr>sys := y\<rparr>)"
| arrives: "bs = take n (drop (carried x) (sent_to k (server_of (sys x)))) \<Longrightarrow>
    link_step k fd x (x\<lparr>peer := (peer x)\<lparr>rx := (rx (peer x))(fd := rx (peer x) fd @ bs)\<rparr>,
                        carried := carried x + length bs\<rparr>)"
| listens: "decode_bytes (rx (peer x) fd) \<noteq> None \<Longrightarrow>
    listen_pass (NetworkStream fd) (handler x) (peer x) = (r, ev, h, c) \<Longrightarrow>
    link_step k fd x (x\<lparr>peer := c, handler := h\<rparr>)"
| reads: "readMessageByIndex i (handler x) = (m, h) \<Longrightarrow> link_step k fd x (x\<lparr>handler := h\<rparr>)"
| acts: "rx c fd = rx (peer x) fd \<Longrightarrow> link_step k fd x (x\<lparr>peer := c\<rparr>)"

definition link_start :: "system \<Rightarrow> client \<Rightarrow> fd \<Rightarrow> fd \<Rightarrow> link" where
  "link_start y0 c k fd = \<lparr>sys = y0, peer = c\<lparr>rx := (rx c)(fd := [])\<rparr>, handler = MessageHandler_new fd,
     carried = length (sent_to k (server_of y0))\<rparr>"

section \<open>Inboxes\<close>

definition inbox :: "MessageHandler \<Rightarrow> ReceivedMessage list" where
  "inbox h = unreadMessages h @ readMessages h"

text \<open>What a line adds to an inbox: sender, subject and text.\<close>

definition message_in :: "string \<Rightarrow> (string \<times> string \<times> string) list" where
  "message_in l =
     (case parseMessage l of None \<Rightarrow> []
      | Some ev \<Rightarrow> if ev_type ev = MESSAGE then [(ev_args ev ! 0, ev_args ev ! 1, ev_args ev ! 2)] else [])"

definition messages_in :: "string list \<Rightarrow> (string \<times> string \<times> string) list" where
  "messages_in ls = concat (map message_in ls)"

lemma messages_in_simps [simp]: "messages_in [] = []" "messages_in (ls @ ks) = messages_in ls @ messages_in ks"
  "messages_in (l # ls) = message_in l @ messages_in ls"
  by (simp_all add: messages_in_def)

text \<open>A numbered message, and the numbering of a list of them.\<close>

definition mail_content :: "ReceivedMessage \<Rightarrow> int \<times> string \<times> string \<times> string" where
  "mail_content m = (index m, rm_from m, rm_subject m, rm_body m)"

definition numbered :: "'m list \<Rightarrow> (int \<times> 'm) list" where
  "numbered ms = zip (map int [0..<length ms]) ms"

lemma numbered_snoc: "numbered (ms @ [m]) = numbered ms @ [(int (length ms), m)]"
  by (simp add: numbered_def)

definition inbox_is :: "MessageHandler \<Rightarrow> (string \<times> string \<times> string) list \<Rightarrow> bool" where
  "inbox_is h ms \<longleftrightarrow> messageCounter h = int (length ms) \<and> mset (map mail_content (inbox h)) = mset (numbered ms)"

lemma inbox_is_new: "inbox_is (MessageHandler_new fd) []"
  by (simp add: inbox_is_def MessageHandler_new_def inbox_def numbered_def)

lemma inbox_is_store:
  "inbox_is h ms \<Longrightarrow> inbox_is (storeMessage ev p h) (ms @ [(ev_args ev ! 0, ev_args ev ! 1, ev_args ev ! 2)])"
  by (simp add: inbox_is_def storeMessage_def inbox_def mail_content_def numbered_snoc)

lemma inbox_is_read:
  assumes "readMessageByIndex i h = (m, h')"
  shows "inbox_is h' ms = inbox_is h ms"
proof (cases "find (\<lambda>m. index m = i) (unreadMessages h)")
  case None
  with assms show ?thesis by (simp add: readMessageByIndex_def)
next
  case (Some x)
  from erase_first_split[OF this] obtain ys zs where s: "unreadMessages h = ys @ x # zs"
    "erase_first (\<lambda>m. index m = i) (unreadMessages h) = ys @ zs" by auto
  have "mail_content (x\<lparr>isRead := True\<rparr>) = mail_content x" by (simp add: mail_content_def)
  with Some assms s show ?thesis by (auto simp: readMessageByIndex_def inbox_is_def inbox_def ac_simps)
qed

section \<open>Frames in order\<close>

lemma encode_prefix:
  assumes "length a < 2 ^ 32" and "length b < 2 ^ 32" and "encodeMessage a @ x = encodeMessage b @ y"
  shows "a = b \<and> x = y"
proof -
  from assms(3) have h: "htonl_bytes (word_of_nat (length a)) = htonl_bytes (word_of_nat (length b))"
    and t: "a @ x = b @ y"
    by (simp_all add: encodeMessage_def append_eq_append_conv)
  from h have "(word_of_nat (length a) :: u32) = word_of_nat (length b)" by (metis ntohl_htonl)
  from arg_cong[OF this, of unat] have "length a = length b" using assms(1,2) by (simp add: unat_of_nat)
  with t show ?thesis by simp
qed

lemma connected_stream: "0 \<le> fd \<Longrightarrow> connected (NetworkStream fd)"
  by (simp add: NetworkStream_def)

text \<open>What one pass of the listener does when a frame is there.\<close>

lemma listen_frame:
  assumes "decode_bytes (rx p fd) = Some (l, rest)" and "0 \<le> fd"
    and "listen_pass (NetworkStream fd) h (p :: client) = (r, ev, h', p')" and "inbox_is h ms"
  shows "rx p' fd = rx p fd \<and> h' = h \<or> rx p' fd = rest \<and> inbox_is h' (ms @ message_in l)"
proof (cases "fdOpen p fd")
  case False
  then have "ns_receive (NetworkStream fd) p = (None, \<lparr>socketFd = fd, connected = False\<rparr>, p)"
    using assms(2) by (simp add: ns_receive_def NetworkStream_def decodeMessage_closed)
  with assms(2,3) show ?thesis by (auto simp: listen_pass_def NetworkStream_def)
next
  case True
  from decode_bytes_frame[OF assms(1)] decode_bytes_bounds[OF assms(1)]
  have "ns_receive (NetworkStream fd) p = (Some l, NetworkStream fd, p\<lparr>rx := (rx p)(fd := rest)\<rparr>)"
    using receive_frame[OF True assms(2)] by simp
  then have pass: "listen_pass (NetworkStream fd) h p =
     (case parseMessage l of None \<Rightarrow> (Some (NetworkStream fd), None, h, p\<lparr>rx := (rx p)(fd := rest)\<rparr>)
      | Some ev \<Rightarrow>
          if ev_type ev = MESSAGE then (Some (NetworkStream fd), Some ev,
            storeMessage ev (p\<lparr>rx := (rx p)(fd := rest)\<rparr>) h, p\<lparr>rx := (rx p)(fd := rest)\<rparr>)
          else if ev_type ev = PING then (Some (NetworkStream fd), None, h,
            LOG_DEBUG ''PING received, PONG sent'' (snd (sendCommand (build ''PONG'' []) h (p\<lparr>rx := (rx p)(fd := rest)\<rparr>))))
          else (Some (NetworkStream fd), Some ev, h, p\<lparr>rx := (rx p)(fd := rest)\<rparr>))"
    using assms(2) connected_stream[OF assms(2)] by (simp add: listen_pass_def)
  have "rx (snd (sendCommand c h q)) = rx q" for c and q :: client
    by (simp add: sendCommand_def case_prod_beta Let_def)
  with assms(3,4) pass inbox_is_store[OF assms(4)] show ?thesis
    by (auto simp: message_in_def split: option.splits if_splits)
qed

section \<open>The invariant\<close>

text \<open>
  \<open>ls1\<close>: the lines the listener has read; \<open>ls2\<close>: those the server has said since; \<open>more\<close>: the bytes
  that have not arrived.
\<close>

definition spoken :: "system \<Rightarrow> string \<Rightarrow> bool" where
  "spoken y0 l \<longleftrightarrow> notice_line l \<or> (\<exists>m. l = message_frame m \<and> msg_ok m \<and> authored y0 m)"

definition link_inv :: "system \<Rightarrow> fd \<Rightarrow> fd \<Rightarrow> link \<Rightarrow> bool" where
  "link_inv y0 k fd x \<longleftrightarrow> rtranclp system_step y0 (sys x) \<and>
     (\<exists>ls1 ls2 more.
        sent_to k (server_of (sys x)) = sent_to k (server_of y0) @ concat (map encodeMessage (ls1 @ ls2)) \<and>
        concat (map encodeMessage ls2) = rx (peer x) fd @ more \<and>
        carried x + length more = length (sent_to k (server_of (sys x))) \<and>
        (\<forall>l\<in>set (ls1 @ ls2). line_ok (spoken y0) l) \<and> inbox_is (handler x) (messages_in ls1))"

text \<open>The states the server starts from: no message queued, taken or in the hands of a handler.\<close>

definition fresh :: "system \<Rightarrow> bool" where
  "fresh y0 \<longleftrightarrow> system_inv y0 \<and> held y0 = {}"

lemma spoken_may_say:
  assumes "fresh y0" and "rtranclp system_step y0 y" and "may_say y l"
  shows "spoken y0 l"
proof -
  have "authored y0 m \<and> msg_ok m" if "in_flight y = Some m" for m
    using run_authored[OF assms(2)] sys.run_inv[OF assms(2)] assms(1) that
    by (auto simp: fresh_def system_inv_def held_def)
  with assms(3) show ?thesis by (auto simp: may_say_def spoken_def)
qed

lemma line_ok_short: "line_ok L l \<Longrightarrow> length l < 2 ^ 32"
  by (simp add: line_ok_def MAX_RW_COUNT_def encodeMessage_def)

lemma link_step_inv:
  assumes "link_step k fd x z" and "fresh y0" and "0 \<le> fd" and "link_inv y0 k fd x"
  shows "link_inv y0 k fd z"
proof -
  from assms(4) obtain ls1 ls2 more where run: "rtranclp system_step y0 (sys x)"
    and sent: "sent_to k (server_of (sys x)) = sent_to k (server_of y0) @ concat (map encodeMessage (ls1 @ ls2))"
    and coming: "concat (map encodeMessage ls2) = rx (peer x) fd @ more"
    and count: "carried x + length more = length (sent_to k (server_of (sys x)))"
    and lines: "\<forall>l\<in>set (ls1 @ ls2). line_ok (spoken y0) l" and box: "inbox_is (handler x) (messages_in ls1)"
    unfolding link_inv_def by blast
  from assms(1) show ?thesis
  proof cases
    case (serves y)
    have "speaks (spoken y0) (server_of (sys x)) (server_of y)"
      using speaks_mono[OF system_step_speaks[OF serves(2,3)]] spoken_may_say[OF assms(2) run] by blast
    then obtain ls where ls: "sent_to k (server_of y) = sent_to k (server_of (sys x)) @ concat (map encodeMessage ls)"
      "\<forall>l\<in>set ls. line_ok (spoken y0) l" using speaks_sent_to by blast
    have "rtranclp system_step y0 y" using run serves(2) by simp
    with ls sent coming count lines box show ?thesis
      unfolding link_inv_def serves(1)
      by (intro conjI exI[of _ ls1] exI[of _ "ls2 @ ls"] exI[of _ "more @ concat (map encodeMessage ls)"]) auto
  next
    case (arrives bs n)
    let ?all = "sent_to k (server_of (sys x))"
    have "length (rx (peer x) fd @ more) \<le> length ?all" unfolding coming[symmetric] sent by simp
    moreover have "drop (length ?all - length more) ?all = more"
    proof -
      have "?all = (sent_to k (server_of y0) @ concat (map encodeMessage ls1) @ rx (peer x) fd) @ more"
        unfolding sent using coming by simp
      then show ?thesis by (metis append_eq_conv_conj length_append add_diff_cancel_right')
    qed
    moreover have "carried x = length ?all - length more" using count by simp
    ultimately have bs: "bs = take n more" using arrives(2) by simp
    with sent coming count lines box run show ?thesis
      unfolding link_inv_def arrives(1)
      by (intro conjI exI[of _ ls1] exI[of _ ls2] exI[of _ "drop n more"]) auto
  next
    case (listens r ev h c)
    then obtain l rest where d: "decode_bytes (rx (peer x) fd) = Some (l, rest)" by fastforce
    from listen_frame[OF d assms(3) listens(3) box] show ?thesis
    proof
      assume "rx c fd = rx (peer x) fd \<and> h = handler x"
      with sent coming count lines box run show ?thesis
        unfolding link_inv_def listens(1) by (intro conjI exI[of _ ls1] exI[of _ ls2] exI[of _ more]) auto
    next
      assume c: "rx c fd = rest \<and> inbox_is h (messages_in ls1 @ message_in l)"
      have frame: "rx (peer x) fd = encodeMessage l @ rest" by (rule decode_bytes_frame[OF d])
      then obtain l' ls' where ls2: "ls2 = l' # ls'" using coming by (cases ls2) (auto simp: encodeMessage_def htonl_bytes_def)
      have "length l < 2 ^ 32" "length l' < 2 ^ 32"
        using decode_bytes_bounds[OF d] lines line_ok_short unfolding ls2
        by (auto simp: sendable_def MAX_MESSAGE_SIZE_def)
      moreover have "encodeMessage l @ rest @ more = encodeMessage l' @ concat (map encodeMessage ls')"
        using coming frame ls2 by simp
      ultimately have l: "l' = l" and rest: "concat (map encodeMessage ls') = rest @ more"
        using encode_prefix[of l l'] by metis+
      let ?z = "x\<lparr>peer := c, handler := h\<rparr>"
      have "ls1 @ ls2 = (ls1 @ [l]) @ ls'" by (simp add: ls2 l)
      note sent' = sent[unfolded this] and lines' = lines[unfolded this]
      have "sent_to k (server_of (sys ?z)) = sent_to k (server_of y0) @ concat (map encodeMessage ((ls1 @ [l]) @ ls'))"
        using sent' by simp
      moreover have "concat (map encodeMessage ls') = rx (peer ?z) fd @ more" using rest c by simp
      moreover have "carried ?z + length more = length (sent_to k (server_of (sys ?z)))" using count by simp
      moreover have "inbox_is (handler ?z) (messages_in (ls1 @ [l]))" using c by simp
      moreover have "rtranclp system_step y0 (sys ?z)" using run by simp
      ultimately show ?thesis using lines' unfolding link_inv_def listens(1) by blast
    qed
  next
    case (reads i m h)
    with sent coming count lines box run show ?thesis
      unfolding link_inv_def by (intro conjI exI[of _ ls1] exI[of _ ls2] exI[of _ more]) (auto simp: inbox_is_read)
  next
    case (acts c)
    with sent coming count lines box run show ?thesis
      unfolding link_inv_def by (intro conjI exI[of _ ls1] exI[of _ ls2] exI[of _ more]) auto
  qed
qed

lemma link_start_inv: "link_inv y0 k fd (link_start y0 c k fd)"
  unfolding link_inv_def link_start_def
  by (intro conjI exI[of _ "[]"]) (simp_all add: inbox_is_new)

lemma link_run_inv:
  assumes "rtranclp (link_step k fd) (link_start y0 c k fd) x" and "fresh y0" and "0 \<le> fd"
  shows "link_inv y0 k fd x"
  using assms(1) by (induction rule: rtranclp_induct) (auto intro: link_start_inv link_step_inv[OF _ assms(2,3)])

section \<open>What the lines hold\<close>

lemma message_in_reply: "reply_line l \<Longrightarrow> message_in l = []"
proof -
  assume "reply_line l"
  moreover have "parseMessage (''PONG'' @ [NL]) = None"
    using parseMessage_build[of "''PONG''" "[]"] by (simp add: build_def wf_fields_def)
  ultimately show "message_in l = []"
    using parse_reply[of l] by (auto simp: message_in_def simp del: append_Cons)
qed

lemma message_in_notice:
  assumes "notice_line l" and "e \<in> set (message_in l)"
  shows "fst e = ''SERVER''"
proof -
  from assms(1) obtain b c where l: "l = build ''MESSAGE'' [''SERVER'', b, c, ''0'']" by (auto simp: notice_line_def)
  let ?j = "join [CHR '';''] [b, c, ''0'']"
  have "split (''MESSAGE'' @ CHR '';'' # ''SERVER'' @ CHR '';'' # ?j) [CHR '';''] = ''MESSAGE'' # ''SERVER'' # splitc (CHR '';'') ?j"
    by (simp only: split_char splitc_append) (simp add: text_simps)
  then have "arguments (parse l) = ''SERVER'' # splitc (CHR '';'') ?j"
    by (simp add: l parse_def butlast_build MESSAGE_DELIMITER_def)
  then show ?thesis
    using assms(2) by (auto simp: message_in_def parseMessage_def arg_def Let_def split: if_splits option.splits)
qed

lemma message_in_frame: "msg_ok m \<Longrightarrow> message_in (message_frame m) = [(msg_from m, subject m, body m)]"
  unfolding message_in_def message_frame_def parseMessage_build[OF message_frame_fields] by simp

lemma message_spoken:
  assumes "line_ok (spoken y0) l" and "(u, s, b) \<in> set (message_in l)"
  shows "u = ''SERVER'' \<or> (\<exists>m. authored y0 m \<and> msg_from m = u \<and> subject m = s \<and> body m = b)"
  using assms message_in_reply[of l] message_in_notice[of l "(u, s, b)"] message_in_frame
  by (auto simp: line_ok_def spoken_def)

lemma inbox_content:
  assumes "inbox_is h ms" and "rm \<in> set (inbox h)"
  shows "(rm_from rm, rm_subject rm, rm_body rm) \<in> set ms"
proof -
  have "mail_content rm \<in> set (map mail_content (inbox h))" using assms(2) by simp
  also have "\<dots> = set (numbered ms)" using assms(1) unfolding inbox_is_def by (metis set_mset_mset)
  finally show ?thesis by (auto simp: mail_content_def numbered_def dest: set_zip_rightD)
qed

lemma inbox_in_order:
  assumes "inbox_is h ms"
  shows "map mail_content (sort_key index (inbox h)) = numbered ms"
proof -
  let ?xs = "map mail_content (sort_key index (inbox h))"
  have m: "mset ?xs = mset (numbered ms)" using assms by (simp add: inbox_is_def)
  have fst_n: "map fst (numbered ms) = map int [0..<length ms]" by (simp add: numbered_def)
  have fst_x: "map fst ?xs = map index (sort_key index (inbox h))" by (simp add: mail_content_def comp_def)
  have d: "distinct (map fst (numbered ms))" unfolding fst_n by (simp add: distinct_map)
  show ?thesis
  proof (rule map_sorted_distinct_set_unique[of fst])
    show "set ?xs = set (numbered ms)" using m by (metis set_mset_mset)
    then show "inj_on fst (set ?xs \<union> set (numbered ms))" using d by (simp add: distinct_map)
    show "sorted (map fst ?xs)" unfolding fst_x by simp
    show "sorted (map fst (numbered ms))" unfolding fst_n by (simp add: sorted_iff_nth_mono)
    have "mset (map fst ?xs) = mset (map fst (numbered ms))" using m by (metis mset_map)
    then show "distinct (map fst ?xs)" using d by (metis mset_eq_imp_distinct_iff)
    show "distinct (map fst (numbered ms))" by (rule d)
  qed
qed

section \<open>Properties\<close>



text \<open>A run: "al" writes to "bob", whose client reads it.\<close>

lemma sent_to_whole:
  assumes "fdOpen p fd" and "0 \<le> fd" and "sendResult p fd (encodeMessage m) = int (length (encodeMessage m))"
  shows "fst (send_on fd m p)" "sent_to fd (snd (send_on fd m p)) = sent_to fd p @ encodeMessage m"
  using assms by (simp_all add: send_on_def ns_send_def os_send_def NetworkStream_def sent_to_def Let_def)

lemma deliver_whole:
  assumes "getUserSocket (msg_to m) s = k" and "0 < k" and "fdOpen s k"
    and "sendResult s k (encodeMessage (message_frame m)) = int (length (encodeMessage (message_frame m)))"
  shows "sent_to k (deliver m s) = sent_to k s @ encodeMessage (message_frame m)"
  using assms sent_to_whole[of s k "message_frame m"]
  by (simp add: deliver_def Let_def case_prod_beta incrementMessagesSent_def
      sent_to_def[of _ "_\<lparr>totalMessagesSent := _\<rparr>"] sent_to_def[of _ "snd _", symmetric])

lemma handleSend_sendResult: "sendResult (handleSendMessage a k s) = sendResult s"
proof -
  have "said (\<lambda>_. True) s (handleSendMessage a k s)" by simp
  then show ?thesis by (simp add: said_def)
qed

lemma handleSend_other:
  assumes "k \<noteq> j"
  shows "sent_to j (handleSendMessage a k s) = sent_to j s"
proof -
  have "sent_to j (sendResponse k m t) = sent_to j t" for m t
    using assms by (simp add: sendResponse_def sent_to_other)
  then show ?thesis by (simp add: handleSendMessage_eq sendError_def sendOK_def Let_def case_prod_beta)
qed

lemma handleSend_running:
  "map_option running (dispatcher (handleSendMessage a k s)) = map_option running (dispatcher s)"
proof -
  have "map_option running (dispatcher (fold (\<lambda>m s. snd (server_queue m s)) ms t)) = map_option running (dispatcher t)" for ms t
    by (induction ms arbitrary: t) simp_all
  then have "map_option running (dispatcher (broadcast m rs t)) = map_option running (dispatcher t)" for m rs t
    unfolding broadcast_fold .
  then show ?thesis by (simp add: handleSendMessage_eq Let_def case_prod_beta)
qed

definition example_mail :: Message where
  "example_mail = \<lparr>msg_from = ''al'', msg_to = ''bob'', subject = ''hi'', body = ''text'', timestamp = 0\<rparr>"

lemma example_mail_ok: "msg_ok example_mail" "sendable (message_frame example_mail)"
proof -
  show "msg_ok example_mail"
    by (simp add: example_mail_def msg_ok_def name_ok_def username_char_def isalnum_def isalpha_def)
  have "length (timestampToUnixString 0) = 1" by code_simp
  then show "sendable (message_frame example_mail)"
    by (simp add: sendable_def message_frame_def example_mail_def length_build MAX_MESSAGE_SIZE_def)
qed

lemma example_fresh: "fresh (idle_system example_sending)"
  using example_sending_simps(4,6) by (simp add: fresh_def system_inv_def held_def)

lemma example_sending_net:
  "whole example_sending" "fdOpen example_sending 7" "getUserSocket ''bob'' example_sending = 7"
  "map_option running (dispatcher example_sending) = Some True"
  "sendResult example_sending k data = (if length data \<le> MAX_RW_COUNT then int (length data) else -1)"
proof -
  have s: "sendResult example_sending = (\<lambda>_ data. if length data \<le> MAX_RW_COUNT then int (length data) else -1)"
    by (simp add: example_sending_def MAX_RW_COUNT_def)
  then show "whole example_sending" by (simp add: whole_def)
  show "sendResult example_sending k data = (if length data \<le> MAX_RW_COUNT then int (length data) else -1)"
    by (simp add: s)
  show "fdOpen example_sending 7"
    by (simp add: example_sending_def initializeCommands_def example_server_def)
  show "getUserSocket ''bob'' example_sending = 7" by (simp add: getUserSocket_def example_sending_simps)
  have "dispatcher example_sending = Some (fst (Dispatcher_new idle_process))"
    by (simp add: example_sending_def initializeCommands_fields) (simp add: example_server_def)
  then show "map_option running (dispatcher example_sending) = Some True" by (simp add: Dispatcher_new_def)
qed

lemma example_delivered:
  obtains s where "rtranclp (\<lambda>y z. system_step y z \<and> whole (server_of y)) (idle_system example_sending) (idle_system s)"
    and "sent_to 7 s = sent_to 7 example_sending @ encodeMessage (message_frame example_mail)"
proof -
  let ?y = "\<lambda>s f. (idle_system s)\<lparr>in_flight := f\<rparr>"
  let ?R = "\<lambda>y z. system_step y z \<and> whole (server_of y)"
  obtain r t q where c: "client_pass 4 (NetworkStream 4) example_sending = (r, t)"
    and t: "t = handleSendMessage [''SEND'', ''bob'', ''hi'', ''text''] 4 (example_sending\<lparr>rx := q\<rparr>)"
    and p: "pending t = [example_mail]"
    unfolding example_mail_def by (rule example_sending_run)
  have f: "clients t = clients example_sending" "exited t = None" "status t = RUNNING" "fdOpen t 7"
    "sendResult t = sendResult example_sending" "sent_to 7 t = sent_to 7 example_sending"
    using example_sending_simps(2,3) example_sending_net(2)
    by (simp_all add: t handleSend_other handleSend_sendResult sent_to_cong[of "_\<lparr>rx := _\<rparr>" example_sending])
  obtain d where d: "dispatcher t = Some d" "running d" "messages d = example_mail # []"
    using p handleSend_running[of "[''SEND'', ''bob'', ''hi'', ''text'']" 4 "example_sending\<lparr>rx := q\<rparr>"]
      example_sending_net(4) unfolding t[symmetric]
    by (auto simp: pending_def split: option.splits)
  obtain u where u: "dispatch_take t = Some (example_mail, u)" and fu: "clients u = clients t" "exited u = exited t"
    "sendResult u = sendResult t" "fdOpen u = fdOpen t" "\<And>k. sent_to k u = sent_to k t"
    using dispatch_take_runs[OF d(1,2) f(3) d(3)] by metis
  have w: "whole t" "whole u" using example_sending_net(1) f(5) fu(3) by (simp_all add: whole_def)
  have "?R (?y example_sending None) (?y t None)"
    using system_step.atomic[of "idle_system example_sending" t] server_step.client[OF c] example_sending_simps(3)
      example_sending_net(1) by (simp add: idle_system_def)
  moreover have "?R (?y t None) (?y u (Some example_mail))"
    using dispatcher_takes[of "idle_system t" example_mail u] f(2) u w(1) by (simp add: idle_system_def)
  moreover have "?R (?y u (Some example_mail)) (?y (deliver example_mail u) None)"
    using dispatcher_delivers[of "?y u (Some example_mail)" example_mail] f(2) fu(2) w(2) by (simp add: idle_system_def)
  ultimately have run: "rtranclp ?R (?y example_sending None) (?y (deliver example_mail u) None)"
    by (rule rtranclp.rtrancl_into_rtrancl[OF rtranclp.rtrancl_into_rtrancl[OF r_into_rtranclp[of ?R]]])
  have "getUserSocket (msg_to example_mail) u = 7"
    using example_sending_net(3) fu(1) f(1) by (simp add: getUserSocket_def example_mail_def)
  then have "sent_to 7 (deliver example_mail u) = sent_to 7 example_sending @ encodeMessage (message_frame example_mail)"
    using deliver_whole[of example_mail u 7] example_sending_net(5) f fu example_mail_ok(2)
    by (simp add: sendable_def MAX_RW_COUNT_def MAX_MESSAGE_SIZE_def encodeMessage_def)
  with run show thesis using that[of "deliver example_mail u"] by (simp add: idle_system_def)
qed

lemma link_serves:
  assumes "rtranclp (\<lambda>y z. system_step y z \<and> whole (server_of y)) y0 y"
  shows "rtranclp (link_step k fd) (link_start y0 c k fd) ((link_start y0 c k fd)\<lparr>sys := y\<rparr>)"
  using assms
proof (induction rule: rtranclp_induct)
  case base
  then show ?case by (simp add: link_start_def)
next
  case (step y z)
  from link_step.serves[of "(link_start y0 c k fd)\<lparr>sys := y\<rparr>" z k fd] step(2)
  have "link_step k fd ((link_start y0 c k fd)\<lparr>sys := y\<rparr>) ((link_start y0 c k fd)\<lparr>sys := z\<rparr>)" by simp
  with step.IH show ?case by simp
qed

lemma example_link_run:
  obtains x rm where "rtranclp (link_step 7 3) (link_start (idle_system example_sending) (example_client\<lparr>fdOpen := (\<lambda>_. True)\<rparr>) 7 3) x"
    and "inbox (handler x) = [rm]" and "mail_content rm = (0, ''al'', ''hi'', ''text'')"
proof -
  let ?c = "example_client\<lparr>fdOpen := (\<lambda>_. True)\<rparr>"
  let ?x = "link_start (idle_system example_sending) ?c 7 3"
  obtain s where s: "rtranclp (\<lambda>y z. system_step y z \<and> whole (server_of y)) (idle_system example_sending) (idle_system s)"
    and sent: "sent_to 7 s = sent_to 7 example_sending @ encodeMessage (message_frame example_mail)"
    by (rule example_delivered)
  let ?b = "encodeMessage (message_frame example_mail)"
  define x1 where "x1 = ?x\<lparr>sys := idle_system s\<rparr>"
  define x2 where "x2 = x1\<lparr>peer := (peer x1)\<lparr>rx := (rx (peer x1))(3 := rx (peer x1) 3 @ ?b)\<rparr>, carried := carried x1 + length ?b\<rparr>"
  have "rtranclp (link_step 7 3) ?x x1" unfolding x1_def by (rule link_serves[OF s])
  moreover have "link_step 7 3 x1 x2"
    unfolding x2_def by (rule arrives[where n = "length ?b"]) (simp add: x1_def link_start_def sent)
  moreover have rx: "rx (peer x2) 3 = ?b @ []" and h: "handler x2 = MessageHandler_new 3" and "fdOpen (peer x2) 3"
    by (simp_all add: x2_def x1_def link_start_def)
  obtain r ev h' c' where l: "listen_pass (NetworkStream 3) (handler x2) (peer x2) = (r, ev, h', c')" by (metis prod_cases4)
  have d: "decode_bytes (rx (peer x2) 3) = Some (message_frame example_mail, [])"
    unfolding rx by (rule decode_encode[OF example_mail_ok(2)])
  then have "link_step 7 3 x2 (x2\<lparr>peer := c', handler := h'\<rparr>)" by (intro listens[OF _ l]) simp
  ultimately have run: "rtranclp (link_step 7 3) ?x (x2\<lparr>peer := c', handler := h'\<rparr>)" by simp
  have mi: "message_in (message_frame example_mail) = [(''al'', ''hi'', ''text'')]"
    using message_in_frame[OF example_mail_ok(1)] by (simp add: example_mail_def)
  have "ns_receive (NetworkStream 3) (peer x2) =
      (Some (message_frame example_mail), NetworkStream 3, (peer x2)\<lparr>rx := (rx (peer x2))(3 := [])\<rparr>)"
    by (rule receive_frame[OF \<open>fdOpen (peer x2) 3\<close> _ rx example_mail_ok(2)]) simp
  then have "map mail_content (inbox h') = [(0, ''al'', ''hi'', ''text'')]"
    using l mi h connected_stream[of 3]
    by (auto simp: listen_pass_def message_in_def storeMessage_def inbox_def MessageHandler_new_def mail_content_def
        split: option.splits if_splits)
  then obtain rm where "inbox h' = [rm]" "mail_content rm = (0, ''al'', ''hi'', ''text'')" by auto
  with that[OF run] show thesis by simp
qed



end
