(* ===== verification/Races.thy ===== *)
theory Races
  imports Server_System
begin

text \<open>
  Runs of the server in which its threads get in each other's way: what a thread saw under a
  lock is no longer so when it acts on it. Each theorem exhibits such a run of the transition
  system.
\<close>

section \<open>What a client thread reads\<close>

text \<open>One line, of a command the server knows.\<close>

lemma line_pass:
  assumes "status s = RUNNING" and "fdOpen s k" and "0 \<le> k" and "rx s k = encodeMessage (build c args) @ rest"
    and "sendable (build c args)" and "wf_fields (c, args)" and "map_of (commands s) c = Some cmd"
  shows "client_pass k (NetworkStream k) s =
    (Some (NetworkStream k), run_command cmd (c # args) k (s\<lparr>rx := (rx s)(k := rest)\<rparr>))"
  using receive_frame[OF assms(2-5)] parse_build[OF assms(6)] assms
  by (simp add: client_pass_def NetworkStream_def executeCommand_def)

text \<open>The same line when the handler stops after its tests.\<close>

lemma line_start:
  assumes "status s = RUNNING" and "fdOpen s k" and "0 \<le> k" and "rx s k = encodeMessage (build c args) @ rest"
    and "sendable (build c args)" and "wf_fields (c, args)" and "map_of (commands s) c = Some cmd"
  shows "handler_start k s = command_start cmd (c # args) k (s\<lparr>rx := (rx s)(k := rest)\<rparr>)"
  using receive_frame[OF assms(2-5)] parse_build[OF assms(6)] assms
  by (simp add: handler_start_def)

text \<open>A CONNECT that passes.\<close>

lemma connect_line:
  assumes "status s = RUNNING" and "fdOpen s k" and "0 \<le> k" and "rx s k = encodeMessage (build ''CONNECT'' [u]) @ rest"
    and "map_of (commands s) ''CONNECT'' = Some CmdConnect" and "connect_ok u s" and "sanitize u = u" and "length u \<le> 1000"
  shows "handler_start k s = Some (Registering u k, s\<lparr>rx := (rx s)(k := rest)\<rparr>)"
proof -
  let ?t = "s\<lparr>rx := (rx s)(k := rest)\<rparr>"
  have "wf_fields (''CONNECT'', [u])"
    using assms(6) by (auto simp: connect_ok_def isValidUsername_iff wf_fields_def username_char_def isalnum_def isalpha_def isdigit_def)
  moreover have "sendable (build ''CONNECT'' [u])"
    using assms(8) by (simp add: sendable_def length_build MAX_MESSAGE_SIZE_def)
  moreover have "connect_ok u ?t"
    using assms(6) validity_cong(1)[of ?t s] by (simp add: connect_ok_def)
  then have "connect_check [''CONNECT'', u] k ?t = (Some u, ?t)" using assms(7) by (simp add: connect_check_Some)
  ultimately show ?thesis using line_start[OF assms(1-4) _ _ assms(5)] by (simp add: command_start_def)
qed

text \<open>The end of a named connection.\<close>

lemma end_pass:
  assumes "status s = RUNNING" and "fdOpen s k" and "0 \<le> k" and "rx s k = []" and "getUsernameBySocket k s \<noteq> []"
  shows "client_pass k (NetworkStream k) s = (None, handleDisconnect k s)"
proof -
  have rx: "(rx s)(k := []) = rx s" using assms(4) by (intro ext) simp
  have "ns_receive (NetworkStream k) s = (None, \<lparr>socketFd = k, connected = False\<rparr>, s)"
    using assms(2-4) rx by (simp add: ns_receive_def NetworkStream_def decodeMessage_def os_recv_def Let_def)
  with assms show ?thesis by (simp add: client_pass_def NetworkStream_def)
qed

lemma scan_frame [simp]:
  "clients (snd (scan_timeouts s)) = clients s" "status (snd (scan_timeouts s)) = status s"
  "exited (snd (scan_timeouts s)) = exited s" "commands (snd (scan_timeouts s)) = commands s"
  "fdOpen (snd (scan_timeouts s)) = fdOpen s" "rx (snd (scan_timeouts s)) = rx s"
  "steadyClock (snd (scan_timeouts s)) = steadyClock s" "config (snd (scan_timeouts s)) = config s"
  "bannedUsers (snd (scan_timeouts s)) = bannedUsers s" "sendResult (snd (scan_timeouts s)) = sendResult s"
  "wire (snd (scan_timeouts s)) = wire s"
  unfolding scan_timeouts_def Let_def snd_conv by (rule fold_keeps, simp add: case_prod_beta)+

lemma end_start:
  assumes "status s = RUNNING" and "fdOpen s k" and "0 \<le> k" and "rx s k = []" and "getUsernameBySocket k s \<noteq> []"
  shows "handler_start k s = Some (Leaving (getUsernameBySocket k s) k, s)"
proof -
  have rx: "(rx s)(k := []) = rx s" using assms(4) by (intro ext) simp
  have "ns_receive (NetworkStream k) s = (None, \<lparr>socketFd = k, connected = False\<rparr>, s)"
    using assms(2-4) rx by (simp add: ns_receive_def NetworkStream_def decodeMessage_def os_recv_def Let_def)
  with assms show ?thesis by (simp add: handler_start_def command_start_def Let_def)
qed

text \<open>The heartbeat finds one late client; it drops a client that is still registered.\<close>

lemma scan_one:
  assumes "filter (\<lambda>(v, j). elapsed_s (steadyClock s) j > 90) (clients s) = [(u, i)]"
  shows "scan_timeouts s = ([u], snd (scan_timeouts s))"
  using assms by (simp add: scan_timeouts_def HEARTBEAT_TIMEOUT_S_def Let_def prod_eq_iff)

lemma drop_registered:
  assumes "sockets_ok (clients s)" and "map_of (clients s) u = Some i"
  shows "drop_client u s = os_close (socket i) (LOG_DISCONNECT (''Client disconnected: '' @ u) (unregisterClient u s))"
proof -
  have "0 < socket i" "u \<noteq> []" using map_of_SomeD[OF assms(2)] assms(1) by (auto simp: sockets_ok_def)
  with username_of_socket[OF assms] assms(2) show ?thesis
    by (simp add: drop_client_def getUserSocket_def handleDisconnect_eq)
qed

text \<open>A handler that has passed its tests registers and answers, whatever else is under way.\<close>

lemma register_run:
  assumes "exited s = None" and "0 \<le> k" and "takes_all s k"
  obtains t where "rtranclp system_step \<lparr>server_of = s, parts = ps @ Registering u k # qs, in_flight = f, expired = us\<rparr>
      \<lparr>server_of = t, parts = ps @ qs, in_flight = f, expired = us\<rparr>"
    and "\<And>j. sent_to j t = sent_to j s @ (if j = k then encodeMessage (build ''OK'' [''Connected as '' @ u]) else [])"
    and "clients t = um_put u \<lparr>socket = k, lastPong = steadyClock s, waitingForPong = False\<rparr> (clients s)"
    and "getUserSocket u t = k" and "exited t = None" and "status t = status s" and "dispatcher t = dispatcher s"
    and "fdOpen t = fdOpen s" and "\<And>j. takes_all t j = takes_all s j"
proof -
  let ?y = "\<lambda>s p. \<lparr>server_of = s, parts = ps @ p @ qs, in_flight = f, expired = us\<rparr>"
  define s1 where "s1 = connect_register u k s"
  define t where "t = connect_answer u k s1"
  have "system_step (?y s [Registering u k]) (?y s1 [Answering u k])"
    using handler_goes_on[of "?y s [Registering u k]" ps "Registering u k" qs "Answering u k" s1] assms(1) by (simp add: s1_def)
  moreover have "system_step (?y s1 [Answering u k]) (?y t [])"
    using handler_ends[of "?y s1 [Answering u k]" ps "Answering u k" qs t] assms(1) by (simp add: s1_def t_def)
  ultimately have run: "rtranclp system_step \<lparr>server_of = s, parts = ps @ Registering u k # qs, in_flight = f, expired = us\<rparr>
      \<lparr>server_of = t, parts = ps @ qs, in_flight = f, expired = us\<rparr>"
    by (simp add: converse_rtranclp_into_rtranclp r_into_rtranclp)
  have sent: "sent_to j t = sent_to j s @ (if j = k then encodeMessage (build ''OK'' [''Connected as '' @ u]) else [])" for j
    using assms(2,3) by (simp add: t_def s1_def connect_register_def connect_answer_def sent_to_response)
  show thesis
    by (rule that[OF run sent])
      (use assms in \<open>simp_all add: t_def s1_def connect_register_def connect_answer_def getUserSocket_def\<close>)
qed

text \<open>A connection is registered under a free name.\<close>

lemma connect_run:
  assumes "exited s = None" and "status s = RUNNING" and "fdOpen s k" and "0 \<le> k"
    and "rx s k = encodeMessage (build ''CONNECT'' [u]) @ rest"
    and "map_of (commands s) ''CONNECT'' = Some CmdConnect" and "connect_ok u s" and "sanitize u = u" and "length u \<le> 1000"
    and "takes_all s k"
  obtains t where "rtranclp system_step \<lparr>server_of = s, parts = ps, in_flight = f, expired = us\<rparr>
      \<lparr>server_of = t, parts = ps, in_flight = f, expired = us\<rparr>"
    and "\<And>j. sent_to j t = sent_to j s @ (if j = k then encodeMessage (build ''OK'' [''Connected as '' @ u]) else [])"
    and "clients t = um_put u \<lparr>socket = k, lastPong = steadyClock s, waitingForPong = False\<rparr> (clients s)"
    and "getUserSocket u t = k" and "exited t = None" and "status t = RUNNING" and "dispatcher t = dispatcher s"
    and "fdOpen t = fdOpen s" and "takes_all t k"
proof -
  define s1 where "s1 = s\<lparr>rx := (rx s)(k := rest)\<rparr>"
  have f1: "exited s1 = None" "takes_all s1 k" "sent_to j s1 = sent_to j s" "clients s1 = clients s" "status s1 = RUNNING"
    "dispatcher s1 = dispatcher s" "fdOpen s1 = fdOpen s" "steadyClock s1 = steadyClock s" for j
    using assms(1,2,10) by (simp_all add: s1_def takes_all_def sent_to_def)
  have start: "system_step \<lparr>server_of = s, parts = ps, in_flight = f, expired = us\<rparr>
      \<lparr>server_of = s1, parts = Registering u k # ps, in_flight = f, expired = us\<rparr>"
    using handler_starts[of "\<lparr>server_of = s, parts = ps, in_flight = f, expired = us\<rparr>" k "Registering u k" s1]
      connect_line[OF assms(2-9)] assms(1) by (simp add: s1_def)
  obtain t where "rtranclp system_step \<lparr>server_of = s1, parts = Registering u k # ps, in_flight = f, expired = us\<rparr>
      \<lparr>server_of = t, parts = ps, in_flight = f, expired = us\<rparr>"
    and sent: "\<And>j. sent_to j t = sent_to j s1 @ (if j = k then encodeMessage (build ''OK'' [''Connected as '' @ u]) else [])"
    and t: "clients t = um_put u \<lparr>socket = k, lastPong = steadyClock s1, waitingForPong = False\<rparr> (clients s1)"
    "getUserSocket u t = k" "exited t = None" "status t = status s1" "dispatcher t = dispatcher s1"
    "fdOpen t = fdOpen s1" "\<And>j. takes_all t j = takes_all s1 j"
    by (rule register_run[OF f1(1) assms(4) f1(2), of "[]" u ps f us, unfolded append_Nil]) (rule that)
  with start have run: "rtranclp system_step \<lparr>server_of = s, parts = ps, in_flight = f, expired = us\<rparr>
      \<lparr>server_of = t, parts = ps, in_flight = f, expired = us\<rparr>"
    by (simp add: converse_rtranclp_into_rtranclp)
  show thesis
    by (rule that[OF run]) (simp_all add: sent t f1)
qed

text \<open>The dispatcher delivers the message it has taken.\<close>

lemma sent_to_deliver:
  assumes "getUserSocket (msg_to m) s = k" and "0 < k" and "takes_all s k"
  shows "sent_to j (deliver m s) = sent_to j s @ (if j = k then encodeMessage (message_frame m) else [])"
  using assms
  by (simp add: deliver_def Let_def case_prod_beta fst_send_on_all sent_to_send_on incrementMessagesSent_def
      sent_to_def[of _ "_\<lparr>totalMessagesSent := _\<rparr>"] sent_to_def[of _ "snd _", symmetric])

text \<open>A server with its table of commands, the clients \<open>cs\<close>, the queue \<open>ms\<close> and the bytes \<open>q\<close> to read.\<close>

definition example_lines :: "(string, ClientInfo) umap \<Rightarrow> Message list \<Rightarrow> (fd \<Rightarrow> string) \<Rightarrow> server" where
  "example_lines cs ms q = (initializeCommands (example_server cs))
     \<lparr>rx := q, dispatcher := Some ((fst (Dispatcher_new idle_process))\<lparr>messages := ms\<rparr>)\<rparr>"

lemma example_lines_simps [simp]:
  "clients (example_lines cs ms q) = cs" "bannedUsers (example_lines cs ms q) = []" "rx (example_lines cs ms q) = q"
  "exited (example_lines cs ms q) = None" "status (example_lines cs ms q) = RUNNING" "fdOpen (example_lines cs ms q) k"
  "dispatcher (example_lines cs ms q) = Some ((fst (Dispatcher_new idle_process))\<lparr>messages := ms\<rparr>)"
  "map_of (commands (example_lines cs ms q)) ''CONNECT'' = Some CmdConnect"
  "map_of (commands (example_lines cs ms q)) ''PONG'' = Some CmdPong"
  "map_of (commands (example_lines cs ms q)) ''SEND'' = Some CmdSend"
  "config (example_lines cs ms q) = config (example_server cs)" "takes_all (example_lines cs ms q) k"
  "sysClock (example_lines cs ms q) = 0" "steadyClock (example_lines cs ms q) = steadyClock (example_server cs)"
proof -
  have "fdOpen (example_lines cs ms q) = fdOpen (example_server cs)"
    "sendResult (example_lines cs ms q) = sendResult (example_server cs)"
    by (simp_all add: example_lines_def initializeCommands_def)
  with takes_all_cong[OF this] show "takes_all (example_lines cs ms q) k" by simp
qed (simp_all add: example_lines_def initializeCommands_def um_of_def um_put_def, simp add: example_server_def)

lemma example_lines_valid: "isValidUsername ''al'' (example_lines cs ms q)" "isValidUsername ''bob'' (example_lines cs ms q)"
  using validity_cong(1)[of "example_lines cs ms q" "example_server cs"]
  by (simp_all add: example_valid username_char_def isalnum_def isalpha_def)

section \<open>Properties\<close>

text \<open>C35: Two CONNECTs for the same free name race. The handler looks the name up and registers it
  under two separate locks, so there is a run in which both connections are told that they
  are connected under it; the registry then holds the second one only, the first one has no
  name, and whatever is sent to the name goes to the second.\<close>

theorem connect_race:
  assumes "exited s = None" and "status s = RUNNING" and "map_of (commands s) ''CONNECT'' = Some CmdConnect"
    and "connect_ok u s" and "sanitize u = u" and "length u \<le> 1000"
    and "rx s j = encodeMessage (build ''CONNECT'' [u]) @ q" and "rx s k = encodeMessage (build ''CONNECT'' [u]) @ r"
    and "takes_all s j" and "takes_all s k" and "fdOpen s j" and "fdOpen s k" and "0 \<le> j" and "0 \<le> k" and "j \<noteq> k"
    and "\<forall>(v, i)\<in>set (clients s). socket i \<noteq> j"
  shows "\<exists>y. rtranclp system_step (idle_system s) y \<and>
    sent_to j (server_of y) = sent_to j s @ encodeMessage (build ''OK'' [''Connected as '' @ u]) \<and>
    sent_to k (server_of y) = sent_to k s @ encodeMessage (build ''OK'' [''Connected as '' @ u]) \<and>
    getUserSocket u (server_of y) = k \<and> getUsernameBySocket j (server_of y) = []"
proof -
  define s1 where "s1 = s\<lparr>rx := (rx s)(j := q)\<rparr>"
  define s2 where "s2 = s1\<lparr>rx := (rx s1)(k := r)\<rparr>"
  have ok1: "connect_ok u s1" using assms(4) validity_cong(1)[of s1 s] by (simp add: connect_ok_def s1_def)
  let ?y = "\<lambda>s c. \<lparr>server_of = s, parts = c, in_flight = None, expired = []\<rparr>"
  have f2: "takes_all s2 h = takes_all s h" "sent_to h s2 = sent_to h s" "clients s2 = clients s" "exited s2 = None" for h
    using assms(1) by (simp_all add: s2_def s1_def takes_all_def sent_to_def)
  have "system_step (?y s []) (?y s1 [Registering u j])"
    using handler_starts[of "?y s []" j "Registering u j" s1] assms(1)
      connect_line[OF assms(2,11,13,7,3,4,5,6)] by (simp add: s1_def)
  moreover have "handler_start k s1 = Some (Registering u k, s2)"
    using connect_line[OF _ _ assms(14) _ _ ok1 assms(5,6)] assms(2,3,8,12,15) by (simp add: s1_def s2_def)
  then have "system_step (?y s1 [Registering u j]) (?y s2 [Registering u k, Registering u j])"
    using handler_starts[of "?y s1 [Registering u j]" k "Registering u k" s2] assms(1) by (simp add: s1_def)
  moreover obtain t1 where t1: "rtranclp system_step (?y s2 [Registering u k, Registering u j]) (?y t1 [Registering u k])"
    and sent1: "\<And>h. sent_to h t1 = sent_to h s2 @ (if h = j then encodeMessage (build ''OK'' [''Connected as '' @ u]) else [])"
    and f1: "clients t1 = um_put u \<lparr>socket = j, lastPong = steadyClock s2, waitingForPong = False\<rparr> (clients s2)" "exited t1 = None"
      "takes_all t1 k = takes_all s2 k"
    using register_run[of s2 j "[Registering u k]" u "[]" None "[]"] f2 assms(9,13) by (metis append_Cons append_Nil)
  moreover obtain t2 where t2: "rtranclp system_step (?y t1 [Registering u k]) (?y t2 [])"
    and sent2: "\<And>h. sent_to h t2 = sent_to h t1 @ (if h = k then encodeMessage (build ''OK'' [''Connected as '' @ u]) else [])"
    and c2: "clients t2 = um_put u \<lparr>socket = k, lastPong = steadyClock t1, waitingForPong = False\<rparr> (clients t1)"
    using register_run[of t1 k "[]" u "[]" None "[]"] f1 f2 assms(10,14) by (metis append_Nil)
  ultimately have run: "rtranclp system_step (?y s []) (?y t2 [])"
    by (meson converse_rtranclp_into_rtranclp rtranclp_trans)
  have "map_of (clients s) u = None" using assms(4) by (simp add: connect_ok_def)
  then have c: "clients t2 = (u, \<lparr>socket = k, lastPong = steadyClock t1, waitingForPong = False\<rparr>) # clients s"
    by (simp add: c2 f1(1) f2(3) um_put_def)
  then have "getUserSocket u t2 = k" by (simp add: getUserSocket_def)
  moreover have "find (\<lambda>(v, i). socket i = j) (clients t2) = None"
    using c assms(15,16) by (auto simp: find_None_iff)
  then have "getUsernameBySocket j t2 = []" by (simp add: getUsernameBySocket_def)
  moreover have "sent_to j t2 = sent_to j s @ encodeMessage (build ''OK'' [''Connected as '' @ u])"
    "sent_to k t2 = sent_to k s @ encodeMessage (build ''OK'' [''Connected as '' @ u])"
    using sent1 sent2 f2(2) assms(15) by simp_all
  ultimately show ?thesis using run by (intro exI[of _ "?y t2 []"]) (simp add: idle_system_def)
qed

theorem connect_race_witness:
  "\<exists>y. rtranclp system_step (idle_system (example_lines [] [] (\<lambda>_. encodeMessage (build ''CONNECT'' [''al''])))) y \<and>
     getUserSocket ''al'' (server_of y) = 6 \<and> getUsernameBySocket 5 (server_of y) = []"
proof -
  let ?s = "example_lines [] [] (\<lambda>_. encodeMessage (build ''CONNECT'' [''al'']))"
  have "connect_ok ''al'' ?s" using example_lines_valid by (simp add: connect_ok_def)
  moreover have "sanitize ''al'' = ''al''" by code_simp
  ultimately show ?thesis using connect_race[of ?s "''al''" 5 "[]" 6 "[]"] by auto
qed

text \<open>C36: A client that answers can still be dropped for not answering. The heartbeat collects the
  late clients under the lock and drops them afterwards without looking again: there is a run
  in which the PONG of a late client is handled in between, so that the client is recorded
  as having answered just now, and the next step removes it and closes its socket.\<close>

theorem answered_but_dropped:
  assumes "exited s = None" and "status s = RUNNING" and "sockets_ok (clients s)"
    and "map_of (clients s) u = Some i"
    and "filter (\<lambda>(v, j). elapsed_s (steadyClock s) j > 90) (clients s) = [(u, i)]"
    and "fdOpen s (socket i)" and "rx s (socket i) = encodeMessage (build ''PONG'' []) @ rest"
    and "map_of (commands s) ''PONG'' = Some CmdPong"
  shows "\<exists>x y. rtranclp system_step (idle_system s) x \<and> system_step x y \<and>
    map_of (clients (server_of x)) u = Some (i\<lparr>lastPong := steadyClock s, waitingForPong := False\<rparr>) \<and>
    isUsernameTaken u (server_of y) = False \<and> \<not> fdOpen (server_of y) (socket i)"
proof -
  let ?k = "socket i"
  let ?i = "i\<lparr>lastPong := steadyClock s, waitingForPong := False\<rparr>"
  let ?y = "\<lambda>s us. \<lparr>server_of = s, parts = [], in_flight = None, expired = us\<rparr>"
  have k: "0 < ?k" "u \<noteq> []" using map_of_SomeD[OF assms(4)] assms(3) by (auto simp: sockets_ok_def)
  define s1 where "s1 = snd (scan_timeouts s)"
  define t where "t = s1\<lparr>rx := (rx s1)(?k := rest)\<rparr>"
  define s2 where "s2 = handlePong ?k t"
  have scan: "scan_timeouts s = ([u], s1)" unfolding s1_def by (rule scan_one[OF assms(5)])
  have "system_step (?y s []) (?y s1 [u])"
    using heartbeat_scans[of "?y s []" "[u]" s1] scan assms(1,2) by simp
  moreover have "sendable (build ''PONG'' [])" by (simp add: sendable_def length_build MAX_MESSAGE_SIZE_def)
  then have "client_pass ?k (NetworkStream ?k) s1 = (Some (NetworkStream ?k), s2)"
    using line_pass[of s1 ?k "''PONG''" "[]" rest CmdPong] assms(2,6,7,8) k
    by (simp add: s1_def s2_def t_def wf_fields_def run_command_def)
  from system_step.atomic[OF _ server_step.client, of "?y s1 [u]", simplified, OF _ this]
  have "system_step (?y s1 [u]) (?y s2 [u])" using assms(1) by (simp add: s1_def)
  ultimately have run: "rtranclp system_step (?y s []) (?y s2 [u])"
    by (meson converse_rtranclp_into_rtranclp rtranclp.rtrancl_refl)
  have ct: "clients t = clients s" by (simp add: t_def s1_def)
  have "getUsernameBySocket ?k t = u"
    using username_of_socket[of t u i] ct assms(3,4) by simp
  then have c2: "clients s2 = um_put u ?i (clients s)"
    using k assms(4) ct by (simp add: s2_def handlePong_def pong_commit_def updateClientPong_def Let_def t_def s1_def)
  have "sockets_ok (clients s2)"
    unfolding c2 using sockets_ok_map[OF sockets_update[OF assms(4), of ?i]] assms(3) by (simp add: sockets_ok_def)
  then have "clients (drop_client u s2) = um_erase u (clients s2)" by (rule clients_drop)
  then have gone: "isUsernameTaken u (drop_client u s2) = False" by (simp add: isUsernameTaken_def)
  have "map_of (clients s2) u = Some ?i" by (simp add: c2)
  with username_of_socket[OF \<open>sockets_ok (clients s2)\<close> this] k
  have closed: "\<not> fdOpen (drop_client u s2) ?k"
    by (simp add: drop_client_def getUserSocket_def fdOpen_handleDisconnect)
  have "exited s2 = None" using assms(1) by (simp add: s2_def t_def s1_def)
  then have "system_step (?y s2 [u]) (?y (drop_client u s2) [])"
    using heartbeat_drops[of "?y s2 [u]" u "[]"] by simp
  with run gone closed \<open>map_of (clients s2) u = Some ?i\<close> show ?thesis
    by (intro exI[of _ "?y s2 [u]"] exI[of _ "?y (drop_client u s2) []"]) (simp add: idle_system_def)
qed

theorem answered_but_dropped_witness:
  "let s = (initializeCommands (example_server [(''al'', online 4)]))
       \<lparr>steadyClock := 100000000000, rx := (\<lambda>_. encodeMessage (build ''PONG'' []))\<rparr>
   in \<exists>x y. rtranclp system_step (idle_system s) x \<and> system_step x y \<and>
        isUsernameTaken ''al'' (server_of y) = False \<and> \<not> fdOpen (server_of y) 4"
proof -
  let ?s = "(initializeCommands (example_server [(''al'', online 4)]))
       \<lparr>steadyClock := 100000000000, rx := (\<lambda>_. encodeMessage (build ''PONG'' []))\<rparr>"
  have "sockets_ok (clients ?s)" "map_of (commands ?s) ''PONG'' = Some CmdPong"
    "exited ?s = None" "status ?s = RUNNING" "clients ?s = [(''al'', online 4)]"
    by (simp_all add: sockets_ok_def um_valid_def initializeCommands_fields, simp_all add: initializeCommands_def um_of_def um_put_def)
  moreover have "fdOpen ?s 4" by (simp add: initializeCommands_def example_server_def)
  ultimately show ?thesis
    using answered_but_dropped[of ?s "''al''" "online 4" "[]"] by (simp add: elapsed_s_def tdiv_def) blast
qed

text \<open>C37: A message can reach somebody it was not written for. Recipients are names until the
  dispatcher looks them up: there is a run in which the recipient of a queued message leaves,
  somebody else connects under the name, and the dispatcher then sends the message to the
  newcomer; the one it was written for gets nothing, the sender no error.\<close>

theorem message_to_namesake:
  assumes "exited s = None" and "status s = RUNNING" and "sockets_ok (clients s)"
    and "dispatcher s = Some d" and "running d" and "messages d = m # rest"
    and "map_of (clients s) (msg_to m) = Some i" and "fdOpen s (socket i)" and "rx s (socket i) = []"
    and "isValidUsername (msg_to m) s" and "msg_to m \<notin> set (bannedUsers s)" and "sanitize (msg_to m) = msg_to m"
    and "0 < k" and "k \<noteq> socket i" and "takes_all s k" and "fdOpen s k" and "length (msg_to m) \<le> 1000"
    and "rx s k = encodeMessage (build ''CONNECT'' [msg_to m]) @ q" and "map_of (commands s) ''CONNECT'' = Some CmdConnect"
  shows "\<exists>y. rtranclp system_step (idle_system s) y \<and> pending (server_of y) = rest \<and>
    sent_to k (server_of y) = sent_to k s @ encodeMessage (build ''OK'' [''Connected as '' @ msg_to m])
      @ encodeMessage (message_frame m) \<and>
    (\<forall>j. j \<noteq> k \<longrightarrow> sent_to j (server_of y) = sent_to j s)"
proof -
  let ?u = "msg_to m" and ?j = "socket i"
  let ?y = "\<lambda>s cs ms. \<lparr>server_of = s, parts = cs, in_flight = ms, expired = []\<rparr>"
  have pos: "0 < ?j" "?u \<noteq> []" using map_of_SomeD[OF assms(7)] assms(3) by (auto simp: sockets_ok_def)
  have name: "getUsernameBySocket ?j s = ?u" by (rule username_of_socket[OF assms(3,7)])
  define s1 where "s1 = handleDisconnect ?j s"
  have s1: "exited s1 = None" "config s1 = config s" "bannedUsers s1 = bannedUsers s" "status s1 = RUNNING"
    "dispatcher s1 = dispatcher s" "clients s1 = um_erase ?u (clients s)" "fdOpen s1 k" "rx s1 k = rx s k" "commands s1 = commands s"
    using assms(1,2,14,16) name pos by (simp_all add: s1_def clients_handleDisconnect fdOpen_handleDisconnect)
  have ok1: "takes_all s1 k" "\<And>j. sent_to j s1 = sent_to j s"
    using assms(14,15) name by (simp_all add: s1_def handleDisconnect_eq takes_all_def sent_to_def unregisterClient_def)
  have "client_pass ?j (NetworkStream ?j) s = (None, s1)"
    unfolding s1_def using end_pass assms(2,8,9) pos name by simp
  from system_step.atomic[OF _ server_step.client, of "?y s [] None", simplified, OF _ this]
  have leaves: "system_step (?y s [] None) (?y s1 [] None)" using assms(1) by simp
  have "connect_ok ?u s1" using assms(10,11) s1 validity_cong(1)[OF s1(2)] by (simp add: connect_ok_def)
  from connect_run[OF s1(1,4,7) _ _ _ this assms(12,17) ok1(1), of q "[]" None "[]"]
  obtain s2 where comes: "rtranclp system_step (?y s1 [] None) (?y s2 [] None)"
    and sent2: "\<And>j. sent_to j s2 = sent_to j s1 @ (if j = k then encodeMessage (build ''OK'' [''Connected as '' @ ?u]) else [])"
    and s2: "getUserSocket ?u s2 = k" "exited s2 = None" "status s2 = RUNNING" "dispatcher s2 = dispatcher s1" "takes_all s2 k"
    using assms(13,18,19) s1(8,9) by (metis less_imp_le)
  obtain s3 where s3: "dispatch_take s2 = Some (m, s3)" and f3: "clients s3 = clients s2"
    "sendResult s3 = sendResult s2" "fdOpen s3 = fdOpen s2"
    "\<And>j. sent_to j s3 = sent_to j s2" "dispatcher s3 = Some (d\<lparr>messages := rest\<rparr>)" "exited s3 = exited s2"
    using dispatch_take_runs[OF _ assms(5) s2(3) assms(6)] assms(4) s1(5) s2(4) by metis
  from s3 have "system_step (?y s2 [] None) (?y s3 [] (Some m))"
    using dispatcher_takes[of "?y s2 [] None" m s3] s2(2) by simp
  moreover have "system_step (?y s3 [] (Some m)) (?y (deliver m s3) [] None)"
    using dispatcher_delivers[of "?y s3 [] (Some m)" m] s2(2) f3(6) by simp
  ultimately have run: "rtranclp system_step (?y s [] None) (?y (deliver m s3) [] None)"
    using leaves comes by (meson converse_rtranclp_into_rtranclp rtranclp.rtrancl_into_rtrancl)
  have "getUserSocket ?u s3 = k" using s2(1) f3(1) by (simp add: getUserSocket_def)
  then have "sent_to j (deliver m s3) = sent_to j s2 @ (if j = k then encodeMessage (message_frame m) else [])" for j
    using sent_to_deliver[of m s3 k j] assms(13) s2(5) takes_all_cong[OF f3(3,2)] f3(4) by simp
  with run sent2 ok1(2) f3(5) show ?thesis
    by (intro exI[of _ "?y (deliver m s3) [] None"]) (simp add: idle_system_def pending_def)
qed

theorem message_to_namesake_witness:
  "let m = \<lparr>msg_from = ''al'', msg_to = ''bob'', subject = ''s'', body = ''hi'', timestamp = 0\<rparr>;
       s = example_lines [(''bob'', online 7)] [m] (\<lambda>k. if k = 9 then encodeMessage (build ''CONNECT'' [''bob'']) else [])
   in \<exists>y. rtranclp system_step (idle_system s) y \<and> sent_to 9 (server_of y) = sent_to 9 s
        @ encodeMessage (build ''OK'' [''Connected as bob'']) @ encodeMessage (message_frame m)"
proof -
  let ?m = "\<lparr>msg_from = ''al'', msg_to = ''bob'', subject = ''s'', body = ''hi'', timestamp = 0\<rparr>"
  let ?q = "\<lambda>k. if k = 9 then encodeMessage (build ''CONNECT'' [''bob'']) else []"
  let ?s = "example_lines [(''bob'', online 7)] [?m] ?q"
  let ?d = "(fst (Dispatcher_new idle_process))\<lparr>messages := [?m]\<rparr>"
  have "sanitize ''bob'' = ''bob''" by code_simp
  moreover have "sockets_ok (clients ?s)" by (simp add: sockets_ok_def um_valid_def)
  moreover have "running ?d" by (simp add: Dispatcher_new_def)
  ultimately have "\<exists>y. rtranclp system_step (idle_system ?s) y \<and> pending (server_of y) = [] \<and>
      sent_to 9 (server_of y) = sent_to 9 ?s @ encodeMessage (build ''OK'' [''Connected as '' @ msg_to ?m]) @ encodeMessage (message_frame ?m) \<and>
      (\<forall>j. j \<noteq> 9 \<longrightarrow> sent_to j (server_of y) = sent_to j ?s)"
    by (intro message_to_namesake[of ?s ?d ?m "[]" "online 7" 9 "[]"]) (simp_all add: example_lines_valid)
  then show ?thesis by (simp add: Let_def) blast
qed

text \<open>C38: The end of an old connection can unregister a new client. The handler looks up the name under
  which its connection is registered and removes whoever has that name when it gets the lock
  again: there is a run in which a silent client's connection ends, the heartbeat drops the
  client at the same time, somebody else connects under the free name and is told so, and the
  first handler then removes the newcomer, whose connection stays open without a name.\<close>

theorem newcomer_unregistered:
  assumes "exited s = None" and "status s = RUNNING" and "sockets_ok (clients s)"
    and "map_of (clients s) u = Some i"
    and "filter (\<lambda>(v, j). elapsed_s (steadyClock s) j > 90) (clients s) = [(u, i)]"
    and "fdOpen s (socket i)" and "rx s (socket i) = []"
    and "fdOpen s k" and "0 < k" and "\<forall>(v, j)\<in>set (clients s). socket j \<noteq> k" and "takes_all s k"
    and "rx s k = encodeMessage (build ''CONNECT'' [u]) @ q" and "map_of (commands s) ''CONNECT'' = Some CmdConnect"
    and "isValidUsername u s" and "u \<notin> set (bannedUsers s)" and "sanitize u = u" and "length u \<le> 1000"
  shows "\<exists>y. rtranclp system_step (idle_system s) y \<and>
    sent_to k (server_of y) = sent_to k s @ encodeMessage (build ''OK'' [''Connected as '' @ u]) \<and>
    \<not> isUsernameTaken u (server_of y) \<and> getUsernameBySocket k (server_of y) = [] \<and> fdOpen (server_of y) k"
proof -
  let ?j = "socket i"
  let ?y = "\<lambda>s ps us. \<lparr>server_of = s, parts = ps, in_flight = None, expired = us\<rparr>"
  have pos: "0 < ?j" "u \<noteq> []" using map_of_SomeD[OF assms(4)] assms(3) by (auto simp: sockets_ok_def)
  have jk: "?j \<noteq> k" using map_of_SomeD[OF assms(4)] assms(10) by auto
  define s1 where "s1 = snd (scan_timeouts s)"
  define s2 where "s2 = drop_client u s1"
  have f1: "clients s1 = clients s" "status s1 = RUNNING" "exited s1 = None" "commands s1 = commands s"
    "fdOpen s1 = fdOpen s" "rx s1 = rx s" "config s1 = config s" "bannedUsers s1 = bannedUsers s"
    "sendResult s1 = sendResult s" "sent_to k s1 = sent_to k s"
    using assms(1,2) by (simp_all add: s1_def sent_to_def)
  have name: "getUsernameBySocket ?j s1 = u" using username_of_socket[of s1 u i] f1(1) assms(3,4) by simp
  have f2: "clients s2 = um_erase u (clients s)" "status s2 = RUNNING" "exited s2 = None" "commands s2 = commands s"
    "fdOpen s2 k" "rx s2 = rx s" "config s2 = config s" "bannedUsers s2 = bannedUsers s" "sent_to k s2 = sent_to k s"
    "takes_all s2 k"
    using f1 assms(3,4,8,11) jk by (simp_all add: s2_def drop_registered unregisterClient_def takes_all_def sent_to_def)
  have "connect_ok u s2" using assms(14,15) f2 validity_cong(1)[OF f2(7)] by (simp add: connect_ok_def)
  from connect_run[OF f2(3,2,5) _ _ _ this assms(16,17) f2(10), of q "[Leaving u ?j]" None "[]"]
  obtain s4 where comes: "rtranclp system_step (?y s2 [Leaving u ?j] []) (?y s4 [Leaving u ?j] [])"
    and sent4: "\<And>h. sent_to h s4 = sent_to h s2 @ (if h = k then encodeMessage (build ''OK'' [''Connected as '' @ u]) else [])"
    and s4: "exited s4 = None" "fdOpen s4 = fdOpen s2"
      "clients s4 = um_put u \<lparr>socket = k, lastPong = steadyClock s2, waitingForPong = False\<rparr> (clients s2)"
    using assms(9,12,13) f2(4,6) by (metis less_imp_le)
  define s5 where "s5 = disconnect_commit u ?j s4"
  have "system_step (?y s [] []) (?y s1 [] [u])"
    using heartbeat_scans[of "?y s [] []" "[u]" s1] scan_one[OF assms(5)] assms(1,2) by (simp add: s1_def)
  moreover have "system_step (?y s1 [] [u]) (?y s1 [Leaving u ?j] [u])"
    using handler_starts[of "?y s1 [] [u]" ?j "Leaving u ?j" s1] end_start[of s1 ?j] f1 assms(6,7) name pos by simp
  moreover have "system_step (?y s1 [Leaving u ?j] [u]) (?y s2 [Leaving u ?j] [])"
    using heartbeat_drops[of "?y s1 [Leaving u ?j] [u]" u "[]"] f1(3) by (simp add: s2_def)
  moreover have "system_step (?y s4 [Leaving u ?j] []) (?y s5 [] [])"
    using handler_ends[of "?y s4 [Leaving u ?j] []" "[]" "Leaving u ?j" "[]" s5] s4(1) by (simp add: s5_def)
  ultimately have run: "rtranclp system_step (?y s [] []) (?y s5 [] [])"
    using comes by (meson converse_rtranclp_into_rtranclp rtranclp.rtrancl_into_rtrancl)
  have "sent_to k s5 = sent_to k s @ encodeMessage (build ''OK'' [''Connected as '' @ u])"
    using sent4[of k] f2(9) by (simp add: s5_def disconnect_commit_eq unregisterClient_def sent_to_def)
  moreover have c5: "clients s5 = um_erase u (clients s)"
    by (simp add: s5_def disconnect_commit_eq s4(3) f2(1) um_erase_again)
  then have "\<not> isUsernameTaken u s5" by (simp add: isUsernameTaken_def)
  moreover have "find (\<lambda>(v, j). socket j = k) (clients s5) = None"
    using assms(10) unfolding c5 um_erase_filter by (auto simp: find_None_iff)
  then have "getUsernameBySocket k s5 = []" by (simp add: getUsernameBySocket_def)
  moreover have "fdOpen s5 k" using f2(5) jk by (simp add: s5_def disconnect_commit_eq s4(2))
  ultimately show ?thesis using run by (intro exI[of _ "?y s5 [] []"]) (simp add: idle_system_def)
qed

theorem newcomer_unregistered_witness:
  "let s = (example_lines [(''al'', online 4)] [] (\<lambda>k. if k = 9 then encodeMessage (build ''CONNECT'' [''al'']) else []))
       \<lparr>steadyClock := 100000000000\<rparr>
   in \<exists>y. rtranclp system_step (idle_system s) y \<and>
        \<not> isUsernameTaken ''al'' (server_of y) \<and> getUsernameBySocket 9 (server_of y) = [] \<and> fdOpen (server_of y) 9"
proof -
  let ?e = "example_lines [(''al'', online 4)] [] (\<lambda>k. if k = 9 then encodeMessage (build ''CONNECT'' [''al'']) else [])"
  let ?s = "?e\<lparr>steadyClock := 100000000000\<rparr>"
  have "sanitize ''al'' = ''al''" by code_simp
  moreover have "isValidUsername ''al'' ?s" using validity_cong(1)[of ?s ?e] example_lines_valid by simp
  moreover have "sockets_ok (clients ?s)" by (simp add: sockets_ok_def um_valid_def)
  moreover have "takes_all ?s 9" using takes_all_cong[of ?s ?e] by simp
  ultimately show ?thesis
    using newcomer_unregistered[of ?s "''al''" "online 4" 9 "[]"] by (simp add: Let_def elapsed_s_def tdiv_def) blast
qed

end
