(* ===== verification/Socket_RAII.thy ===== *)
theory Socket_RAII
  imports Transition
begin

text \<open>
  The owner of a file descriptor: the class \<open>Socket\<close> of \<open>include/Utils/Socket.hpp\<close>. Moves
  write two objects, which may be the same one, so the objects are a store: the value of
  \<open>fd_\<close> at each address where an object lives. The kernel's side is the set of open
  descriptors and a count of the calls of \<open>::close\<close> on a descriptor that was not open.
\<close>

section \<open>Operations\<close>

record sockets =
  objects :: "nat \<Rightarrow> fd option"
  open_fds :: "fd \<Rightarrow> bool"
  bad_closes :: nat

datatype sock_op =
  OsOpen fd | Default nat | WithFd nat fd | MoveCtor nat nat | MoveAssign nat nat
  | CloseFd nat | ReleaseFd nat | Destroy nat

definition Socket_isValid :: "fd \<Rightarrow> bool" where
  "Socket_isValid fd \<longleftrightarrow> fd \<ge> 0"

definition kernel_close :: "fd \<Rightarrow> sockets \<Rightarrow> sockets" where
  "kernel_close fd h =
     (if open_fds h fd then h\<lparr>open_fds := (open_fds h)(fd := False)\<rparr>
      else h\<lparr>bad_closes := Suc (bad_closes h)\<rparr>)"

text \<open>\<open>close()\<close> of the object at address \<open>a\<close>, whose descriptor is \<open>fd_\<close>.\<close>

definition Socket_close :: "nat \<Rightarrow> fd \<Rightarrow> sockets \<Rightarrow> sockets" where
  "Socket_close a fd h =
     (if fd \<ge> 0 then (kernel_close fd h)\<lparr>objects := (objects h)(a \<mapsto> -1)\<rparr> else h)"

text \<open>
  One operation. \<open>None\<close>: the operation is not possible, its object does not live (or, for
  a constructor, lives already).
\<close>

fun Socket_op :: "sock_op \<Rightarrow> sockets \<Rightarrow> sockets option" where
  "Socket_op (OsOpen fd) h =
     (if fd < 0 \<or> open_fds h fd then None else Some (h\<lparr>open_fds := (open_fds h)(fd := True)\<rparr>))"
| "Socket_op (Default a) h =
     (case objects h a of Some _ \<Rightarrow> None | None \<Rightarrow> Some (h\<lparr>objects := (objects h)(a \<mapsto> -1)\<rparr>))"
| "Socket_op (WithFd a fd) h =
     (case objects h a of Some _ \<Rightarrow> None | None \<Rightarrow> Some (h\<lparr>objects := (objects h)(a \<mapsto> fd)\<rparr>))"
| "Socket_op (MoveCtor a b) h =
     (case (objects h a, objects h b) of
        (None, Some fd) \<Rightarrow> Some (h\<lparr>objects := (objects h)(a \<mapsto> fd, b \<mapsto> -1)\<rparr>)
      | _ \<Rightarrow> None)"
| "Socket_op (MoveAssign a b) h =
     (case (objects h a, objects h b) of
        (Some fd_a, Some fd_b) \<Rightarrow>
          (if a \<noteq> b
           then let h1 = Socket_close a fd_a h
                in Some (h1\<lparr>objects := (objects h1)(a \<mapsto> fd_b, b \<mapsto> -1)\<rparr>)
           else Some h)
      | _ \<Rightarrow> None)"
| "Socket_op (CloseFd a) h =
     (case objects h a of Some fd \<Rightarrow> Some (Socket_close a fd h) | None \<Rightarrow> None)"
| "Socket_op (ReleaseFd a) h =
     (case objects h a of Some fd \<Rightarrow> Some (h\<lparr>objects := (objects h)(a \<mapsto> -1)\<rparr>) | None \<Rightarrow> None)"
| "Socket_op (Destroy a) h =
     (case objects h a of
        Some fd \<Rightarrow> (let h1 = Socket_close a fd h in Some (h1\<lparr>objects := (objects h1)(a := None)\<rparr>))
      | None \<Rightarrow> None)"

section \<open>Ownership\<close>

definition owned :: "sockets \<Rightarrow> fd \<Rightarrow> bool" where
  "owned h fd \<longleftrightarrow> 0 \<le> fd \<and> (\<exists>a. objects h a = Some fd)"

text \<open>
  A step of a program that wraps only descriptors which are open and have no owner yet.
\<close>

inductive sock_step :: "sockets \<Rightarrow> sockets \<Rightarrow> bool" where
  any_op: "Socket_op op h = Some h' \<Longrightarrow> (\<forall>a fd. op \<noteq> WithFd a fd) \<Longrightarrow> sock_step h h'"
| wrap: "Socket_op (WithFd a fd) h = Some h' \<Longrightarrow> fd < 0 \<or> open_fds h fd \<and> \<not> owned h fd \<Longrightarrow> sock_step h h'"

definition no_sockets :: sockets where
  "no_sockets = \<lparr>objects = (\<lambda>_. None), open_fds = (\<lambda>_. False), bad_closes = 0\<rparr>"

definition raii_inv :: "sockets \<Rightarrow> bool" where
  "raii_inv h \<longleftrightarrow> bad_closes h = 0 \<and>
     (\<forall>a fd. objects h a = Some fd \<longrightarrow> 0 \<le> fd \<longrightarrow> open_fds h fd) \<and>
     (\<forall>a b fd. objects h a = Some fd \<longrightarrow> objects h b = Some fd \<longrightarrow> 0 \<le> fd \<longrightarrow> a = b)"

lemma raii_invD:
  assumes "raii_inv h" and "objects h a = Some fd" and "0 \<le> fd"
  shows "open_fds h fd" "objects h b = Some fd \<Longrightarrow> b = a"
  using assms by (auto simp: raii_inv_def)

lemma Socket_close_inv:
  assumes "raii_inv h" and "objects h a = Some fd"
  shows "raii_inv (Socket_close a fd h)"
  using assms raii_invD[OF assms]
  by (auto simp: raii_inv_def Socket_close_def kernel_close_def)

lemma Socket_close_objects:
  "objects h a = Some fd \<Longrightarrow> objects (Socket_close a fd h) = (objects h)(a \<mapsto> (if 0 \<le> fd then -1 else fd))"
  by (auto simp: Socket_close_def kernel_close_def fun_eq_iff)

lemma raii_drop: "raii_inv h \<Longrightarrow> raii_inv (h\<lparr>objects := (objects h)(a := None)\<rparr>)"
  "raii_inv h \<Longrightarrow> raii_inv (h\<lparr>objects := (objects h)(a \<mapsto> -1)\<rparr>)"
  by (auto simp: raii_inv_def)

lemma raii_move:
  assumes "raii_inv h" and "objects h b = Some fd" and "a \<noteq> b"
    and "objects h a = None \<or> (\<exists>x<0. objects h a = Some x)"
  shows "raii_inv (h\<lparr>objects := (objects h)(a \<mapsto> fd, b \<mapsto> -1)\<rparr>)"
  using assms raii_invD[OF assms(1,2)] unfolding raii_inv_def by (auto split: if_splits)

lemma Socket_op_inv:
  assumes "Socket_op op h = Some h'" and "raii_inv h" and "\<forall>a fd. op \<noteq> WithFd a fd"
  shows "raii_inv h'"
proof (cases op)
  case (OsOpen fd)
  with assms show ?thesis by (auto simp: raii_inv_def split: if_splits)
next
  case (MoveAssign a b)
  show ?thesis
  proof (cases "a = b")
    case False
    from assms(1) MoveAssign False obtain x y where xy: "objects h a = Some x" "objects h b = Some y"
      and h': "h' = (let h1 = Socket_close a x h in h1\<lparr>objects := (objects h1)(a \<mapsto> y, b \<mapsto> -1)\<rparr>)"
      by (auto simp: Let_def split: option.splits)
    have "raii_inv (Socket_close a x h)" using assms(2) xy(1) by (rule Socket_close_inv)
    moreover have "objects (Socket_close a x h) b = Some y" "\<exists>x'<0. objects (Socket_close a x h) a = Some x'"
      using xy False by (auto simp: Socket_close_objects)
    ultimately show ?thesis unfolding h' Let_def using False by (intro raii_move) auto
  qed (use assms MoveAssign in \<open>auto split: option.splits\<close>)
next
  case (MoveCtor a b)
  with assms show ?thesis by (auto intro!: raii_move split: option.splits)
qed (use assms in \<open>auto simp: Let_def intro: raii_drop Socket_close_inv split: option.splits\<close>)

lemma sock_step_inv: "sock_step h h' \<Longrightarrow> raii_inv h \<Longrightarrow> raii_inv h'"
proof (induction rule: sock_step.induct)
  case (any_op op h h')
  then show ?case by (blast intro: Socket_op_inv)
next
  case (wrap a fd h h')
  then show ?case by (auto simp: raii_inv_def owned_def split: option.splits if_splits)
qed

interpretation raii: invariant sock_step raii_inv
  by unfold_locales (rule sock_step_inv)

lemma raii_init: "raii_inv no_sockets"
  by (simp add: raii_inv_def no_sockets_def)

section \<open>Properties\<close>

text \<open>C23: Ownership of descriptors: however \<open>Socket\<close> objects are made, moved (onto themselves
  too), closed, released and destroyed, a program that wraps each open descriptor once never
  closes a descriptor that is not open (no double close), no two objects hold the same
  descriptor, and the descriptor an object holds is open.\<close>

theorem socket_ownership:
  assumes "rtranclp sock_step no_sockets h"
  shows "bad_closes h = 0 \<and>
    (\<forall>a b fd. objects h a = Some fd \<longrightarrow> objects h b = Some fd \<longrightarrow> Socket_isValid fd \<longrightarrow> a = b) \<and>
    (\<forall>a fd. objects h a = Some fd \<longrightarrow> Socket_isValid fd \<longrightarrow> open_fds h fd)"
  using raii.run_inv[OF assms raii_init] by (simp add: raii_inv_def Socket_isValid_def)

theorem socket_ownership_witness:
  "\<exists>h. rtranclp sock_step no_sockets h \<and> objects h 1 = Some 3 \<and> objects h 0 = Some (-1) \<and> bad_closes h = 0"
proof -
  let ?h1 = "no_sockets\<lparr>open_fds := (open_fds no_sockets)(3 := True)\<rparr>"
  let ?h2 = "?h1\<lparr>objects := (objects ?h1)(0 \<mapsto> 3)\<rparr>"
  let ?h3 = "?h2\<lparr>objects := (objects ?h2)(1 \<mapsto> 3, 0 \<mapsto> -1)\<rparr>"
  have "sock_step no_sockets ?h1" by (rule any_op[of "OsOpen 3"]) (simp_all add: no_sockets_def)
  moreover have "sock_step ?h1 ?h2" by (rule wrap[of 0 3]) (simp_all add: no_sockets_def owned_def)
  moreover have "sock_step ?h2 ?h3" by (rule any_op[of "MoveCtor 1 0"]) (simp_all add: no_sockets_def)
  ultimately have "rtranclp sock_step no_sockets ?h3"
    by (meson converse_rtranclp_into_rtranclp rtranclp.rtrancl_refl)
  from this socket_ownership[OF this] show ?thesis by (intro exI[of _ ?h3]) simp
qed

end
