(* ===== verification/Thread_Pool.thy ===== *)
theory Thread_Pool
  imports Transition
begin

text \<open>
  The worker threads and their task queue: \<open>src/Utils/ThreadPool.cpp\<close>, at the grain of the
  mutex and the condition variable. A worker is at one of the points of \<open>workerThread\<close>; the
  destructor and the callers of \<open>enqueue\<close> move between its steps. \<open>stop\<close> is atomic and is
  written without the mutex, as in the source. Spurious wake-ups are left out: the
  properties of progress must not rest on them.
\<close>

section \<open>State and steps\<close>

text \<open>
  \<open>AtLoop\<close>: about to test \<open>while (!stop)\<close>. \<open>Locking\<close>: about to take the mutex.
  \<open>Checking\<close>: holds it, about to evaluate the predicate of \<open>wait\<close>. \<open>Sleeping\<close>: the
  predicate was false, the mutex is still held. \<open>Blocked\<close>: waiting, without the mutex.
  \<open>Running\<close>: the mutex is free and the task is being run. \<open>Finished\<close>: has returned.
\<close>

datatype 'a worker = AtLoop | Locking | Checking | Sleeping | Blocked | Running 'a | Finished

datatype destructor = NotStarted | StopSet | Notified | Joined

record 'a pool =
  tasks :: "'a list"
  stop :: bool
  mutex :: "nat option"
  workers :: "nat \<Rightarrow> 'a worker"
  poolSize :: nat
  notifications :: nat
  dtor :: destructor
  submitted :: "'a list"
  started :: "'a list"

definition ThreadPool_new :: "nat \<Rightarrow> 'a pool" where
  "ThreadPool_new n =
     \<lparr>tasks = [], stop = False, mutex = None, workers = (\<lambda>_. AtLoop), poolSize = n,
      notifications = 0, dtor = NotStarted, submitted = [], started = []\<rparr>"

abbreviation goto :: "nat \<Rightarrow> 'a worker \<Rightarrow> 'a pool \<Rightarrow> 'a pool" where
  "goto i w p \<equiv> p\<lparr>workers := (workers p)(i := w)\<rparr>"

text \<open>\<open>enqueue\<close>: the push under the mutex; the notification, later and without it.\<close>

definition enqueue_push :: "'a \<Rightarrow> 'a pool \<Rightarrow> 'a pool" where
  "enqueue_push t p =
     p\<lparr>tasks := tasks p @ [t], submitted := submitted p @ [t], notifications := Suc (notifications p)\<rparr>"

text \<open>The predicate of \<open>wait\<close> and, when it holds, the rest of the section under the mutex.\<close>

definition wait_predicate :: "'a pool \<Rightarrow> bool" where
  "wait_predicate p \<longleftrightarrow> stop p \<or> tasks p \<noteq> []"

definition take_task :: "nat \<Rightarrow> 'a pool \<Rightarrow> 'a pool" where
  "take_task i p =
     (case tasks p of
        [] \<Rightarrow> goto i Finished (p\<lparr>mutex := None\<rparr>)
      | t # ts \<Rightarrow> goto i (Running t) (p\<lparr>mutex := None, tasks := ts, started := started p @ [t]\<rparr>))"

inductive pool_step :: "'a pool \<Rightarrow> 'a pool \<Rightarrow> bool" where
  enqueue: "dtor p = NotStarted \<Longrightarrow> mutex p = None \<Longrightarrow> pool_step p (enqueue_push t p)"
| notify_wakes: "0 < notifications p \<Longrightarrow> i < poolSize p \<Longrightarrow> workers p i = Blocked \<Longrightarrow>
     pool_step p (goto i Locking (p\<lparr>notifications := notifications p - 1\<rparr>))"
| notify_lost: "0 < notifications p \<Longrightarrow> (\<forall>i<poolSize p. workers p i \<noteq> Blocked) \<Longrightarrow>
     pool_step p (p\<lparr>notifications := notifications p - 1\<rparr>)"
| loop_on: "i < poolSize p \<Longrightarrow> workers p i = AtLoop \<Longrightarrow> \<not> stop p \<Longrightarrow> pool_step p (goto i Locking p)"
| loop_off: "i < poolSize p \<Longrightarrow> workers p i = AtLoop \<Longrightarrow> stop p \<Longrightarrow> pool_step p (goto i Finished p)"
| lock: "i < poolSize p \<Longrightarrow> workers p i = Locking \<Longrightarrow> mutex p = None \<Longrightarrow>
     pool_step p (goto i Checking (p\<lparr>mutex := Some i\<rparr>))"
| predicate_true: "i < poolSize p \<Longrightarrow> workers p i = Checking \<Longrightarrow> wait_predicate p \<Longrightarrow>
     pool_step p (take_task i p)"
| predicate_false: "i < poolSize p \<Longrightarrow> workers p i = Checking \<Longrightarrow> \<not> wait_predicate p \<Longrightarrow>
     pool_step p (goto i Sleeping p)"
| block: "i < poolSize p \<Longrightarrow> workers p i = Sleeping \<Longrightarrow> pool_step p (goto i Blocked (p\<lparr>mutex := None\<rparr>))"
| finish_task: "i < poolSize p \<Longrightarrow> workers p i = Running t \<Longrightarrow> pool_step p (goto i AtLoop p)"
| set_stop: "dtor p = NotStarted \<Longrightarrow> pool_step p (p\<lparr>stop := True, dtor := StopSet\<rparr>)"
| notify_all: "dtor p = StopSet \<Longrightarrow> pool_step p
     (p\<lparr>workers := (\<lambda>i. if i < poolSize p \<and> workers p i = Blocked then Locking else workers p i),
       dtor := Notified\<rparr>)"
| join: "dtor p = Notified \<Longrightarrow> (\<forall>i<poolSize p. workers p i = Finished) \<Longrightarrow>
     pool_step p (p\<lparr>dtor := Joined\<rparr>)"

section \<open>The invariant\<close>

definition pool_inv :: "'a pool \<Rightarrow> bool" where
  "pool_inv p \<longleftrightarrow>
     submitted p = started p @ tasks p \<and>
     (\<forall>i. workers p i \<in> {Checking, Sleeping} \<longleftrightarrow> mutex p = Some i) \<and>
     (stop p \<longleftrightarrow> dtor p \<noteq> NotStarted) \<and>
     (\<forall>i. workers p i = Finished \<longrightarrow> stop p) \<and>
     (\<forall>i. workers p i = Sleeping \<longrightarrow> tasks p = []) \<and>
     (\<forall>i. mutex p = Some i \<longrightarrow> i < poolSize p)"

definition awake :: "'a worker \<Rightarrow> bool" where
  "awake w \<longleftrightarrow> (case w of AtLoop \<Rightarrow> True | Locking \<Rightarrow> True | Checking \<Rightarrow> True | Running t \<Rightarrow> True
     | Sleeping \<Rightarrow> False | Blocked \<Rightarrow> False | Finished \<Rightarrow> False)"

text \<open>Before the destructor: a queued task has a notification under way or a worker awake.\<close>

definition served :: "'a pool \<Rightarrow> bool" where
  "served p \<longleftrightarrow> (\<not> stop p \<longrightarrow> tasks p \<noteq> [] \<longrightarrow> 0 < poolSize p \<longrightarrow>
     0 < notifications p \<or> (\<exists>i<poolSize p. awake (workers p i)))"

lemma pool_inv_new: "pool_inv (ThreadPool_new n)" "served (ThreadPool_new n)"
  by (simp_all add: pool_inv_def served_def ThreadPool_new_def)

lemma pool_invD:
  assumes "pool_inv p"
  shows "submitted p = started p @ tasks p" "workers p i \<in> {Checking, Sleeping} \<longleftrightarrow> mutex p = Some i"
    "stop p \<longleftrightarrow> dtor p \<noteq> NotStarted" "workers p i = Finished \<Longrightarrow> stop p"
    "workers p i = Sleeping \<Longrightarrow> tasks p = []" "mutex p = Some i \<Longrightarrow> i < poolSize p"
  using assms by (auto simp: pool_inv_def)

lemma holder_unique:
  assumes "pool_inv p" and "workers p i \<in> {Checking, Sleeping}" and "workers p j \<in> {Checking, Sleeping}"
  shows "j = i"
  using assms(2,3) pool_invD(2)[OF assms(1)] by (metis option.inject)

text \<open>A worker without the mutex moves to another point without it.\<close>

lemma pool_inv_goto:
  assumes "pool_inv p" and "workers p i \<notin> {Checking, Sleeping}" and "w \<notin> {Checking, Sleeping}"
    and "w = Finished \<Longrightarrow> stop p"
  shows "pool_inv (goto i w p)"
proof -
  have "mutex p \<noteq> Some i" using pool_invD(2)[OF assms(1), of i] assms(2) by simp
  with assms show ?thesis unfolding pool_inv_def by auto
qed

lemma pool_step_inv: "pool_step p q \<Longrightarrow> pool_inv p \<Longrightarrow> pool_inv q"
proof (induction rule: pool_step.induct)
  case (predicate_true i p)
  have none: "\<forall>j. j \<noteq> i \<longrightarrow> workers p j \<noteq> Checking \<and> workers p j \<noteq> Sleeping"
    using holder_unique[OF predicate_true(4), of i] predicate_true(2) by blast
  show ?case
  proof (cases "tasks p")
    case Nil
    with predicate_true none show ?thesis
      unfolding pool_inv_def take_task_def wait_predicate_def by auto
  next
    case (Cons t ts)
    with predicate_true none show ?thesis
      unfolding pool_inv_def take_task_def by auto
  qed
next
  case (predicate_false i p)
  then show ?case by (auto simp: pool_inv_def wait_predicate_def)
next
  case (enqueue p t)
  then show ?case by (auto simp: pool_inv_def enqueue_push_def)
next
  case (block i p)
  have none: "\<forall>j. j \<noteq> i \<longrightarrow> workers p j \<noteq> Checking \<and> workers p j \<noteq> Sleeping"
    using holder_unique[OF block(3), of i] block(2) by blast
  with block show ?case unfolding pool_inv_def by auto
next
  case (notify_all p)
  have "\<forall>i. workers p i = Blocked \<longrightarrow> mutex p \<noteq> Some i"
  proof (intro allI impI)
    fix i assume "workers p i = Blocked"
    with pool_invD(2)[OF notify_all(2), of i] show "mutex p \<noteq> Some i" by simp
  qed
  with notify_all show ?case unfolding pool_inv_def by auto
next
  case (lock i p)
  have "workers p j \<noteq> Checking \<and> workers p j \<noteq> Sleeping" for j
    using pool_invD(2)[OF lock(4), of j] lock(3) by simp
  with lock show ?case unfolding pool_inv_def by auto
next
  case (loop_on i p)
  then show ?case by (intro pool_inv_goto) simp_all
next
  case (loop_off i p)
  then show ?case by (intro pool_inv_goto) simp_all
next
  case (finish_task i p t)
  then show ?case by (intro pool_inv_goto) simp_all
next
  case (notify_wakes p i)
  have "pool_inv (p\<lparr>notifications := notifications p - 1\<rparr>)"
    using notify_wakes(4) unfolding pool_inv_def by auto
  then show ?case using notify_wakes(3) by (intro pool_inv_goto) simp_all
next
  case (notify_lost p)
  then show ?case unfolding pool_inv_def by auto
next
  case (set_stop p)
  then show ?case unfolding pool_inv_def by auto
next
  case (join p)
  then show ?case unfolding pool_inv_def by auto
qed

lemma served_step:
  assumes "pool_step p q" and "pool_inv p" and "served p"
  shows "served q"
  using assms
proof (induction rule: pool_step.induct)
  case (notify_lost p)
  show ?case
  proof (cases "tasks p = [] \<or> stop p \<or> poolSize p = 0")
    case False
    have "workers p 0 \<noteq> Blocked" using notify_lost(2) False by simp
    moreover have "workers p 0 \<noteq> Sleeping" "workers p 0 \<noteq> Finished"
      using pool_invD(4,5)[OF notify_lost(3), of 0] False by auto
    ultimately have "awake (workers p 0)" by (cases "workers p 0") (auto simp: awake_def)
    with False show ?thesis by (auto simp: served_def)
  qed (auto simp: served_def)
next
  case (predicate_true i p)
  then show ?case by (auto simp: served_def take_task_def awake_def split: list.splits)
next
  case (block i p)
  with pool_invD(5)[OF block(3), of i] show ?case by (auto simp: served_def)
qed (auto simp: served_def awake_def enqueue_push_def wait_predicate_def)

interpretation pool: invariant pool_step "\<lambda>p. pool_inv p \<and> served p"
  by unfold_locales (auto intro: pool_step_inv served_step)

lemma pool_reachable:
  "rtranclp pool_step (ThreadPool_new n) p \<Longrightarrow> pool_inv p \<and> served p"
  using pool.run_inv[of "ThreadPool_new n" p] pool_inv_new by blast

section \<open>Progress before the destructor\<close>

text \<open>A step of the workers or of a pending notification.\<close>

definition internal_step :: "'a pool \<Rightarrow> 'a pool \<Rightarrow> bool" where
  "internal_step p q \<longleftrightarrow> pool_step p q \<and> submitted q = submitted p \<and> dtor q = dtor p"

lemma internalI:
  "pool_step p q \<Longrightarrow> submitted q = submitted p \<Longrightarrow> dtor q = dtor p \<Longrightarrow> \<exists>q. internal_step p q"
  by (auto simp: internal_step_def)

lemma holder_moves:
  assumes "pool_inv p" and "mutex p = Some i"
  shows "\<exists>q. internal_step p q"
proof -
  have i: "i < poolSize p" "workers p i = Checking \<or> workers p i = Sleeping"
    using pool_invD(2,6)[OF assms(1), of i] assms(2) by auto
  consider "workers p i = Sleeping" | "workers p i = Checking" "wait_predicate p"
    | "workers p i = Checking" "\<not> wait_predicate p" using i by blast
  then show ?thesis
  proof cases
    case 1
    show ?thesis by (rule internalI[OF block[OF i(1) 1]]) simp_all
  next
    case 2
    show ?thesis
      by (rule internalI[OF predicate_true[OF i(1) 2]]) (simp_all add: take_task_def split: list.split)
  next
    case 3
    show ?thesis by (rule internalI[OF predicate_false[OF i(1) 3]]) simp_all
  qed
qed

lemma awake_moves:
  assumes "pool_inv p" and "\<not> stop p" and "i < poolSize p" and "awake (workers p i)"
  shows "\<exists>q. internal_step p q"
proof (cases "mutex p")
  case None
  from assms(4) consider "workers p i = AtLoop" | "workers p i = Locking" | "workers p i = Checking"
    | t where "workers p i = Running t" by (cases "workers p i") (auto simp: awake_def)
  then show ?thesis
  proof cases
    case 1
    show ?thesis by (rule internalI[OF loop_on[OF assms(3) 1 assms(2)]]) simp_all
  next
    case 2
    show ?thesis by (rule internalI[OF lock[OF assms(3) 2 None]]) simp_all
  next
    case 3
    with pool_invD(2)[OF assms(1), of i] None show ?thesis by simp
  next
    case 4
    show ?thesis by (rule internalI[OF finish_task[OF assms(3) 4]]) simp_all
  qed
qed (rule holder_moves[OF assms(1)])

lemma queued_task_moves:
  assumes "pool_inv p" and "served p" and "\<not> stop p" and "tasks p \<noteq> []" and "0 < poolSize p"
  shows "\<exists>q. internal_step p q"
proof (cases "0 < notifications p")
  case True
  show ?thesis
  proof (cases "\<exists>i<poolSize p. workers p i = Blocked")
    case blocked: True
    then obtain i where "i < poolSize p" "workers p i = Blocked" by blast
    show ?thesis by (rule internalI[OF notify_wakes[OF True \<open>i < poolSize p\<close> \<open>workers p i = Blocked\<close>]]) simp_all
  next
    case False
    then have "\<forall>i<poolSize p. workers p i \<noteq> Blocked" by blast
    from notify_lost[OF True this] show ?thesis by (rule internalI) simp_all
  qed
next
  case False
  with assms obtain i where "i < poolSize p" "awake (workers p i)" by (auto simp: served_def)
  with assms show ?thesis by (blast intro: awake_moves)
qed

section \<open>Runs of the destructor\<close>

text \<open>All the workers that are at the loop test leave it once \<open>stop\<close> is set.\<close>

lemma leave_loop:
  assumes "j \<le> k" and "stop p" and "\<forall>i. j \<le> i \<longrightarrow> i < k \<longrightarrow> workers p i = AtLoop" and "k \<le> poolSize p"
  shows "rtranclp pool_step p
    (p\<lparr>workers := (\<lambda>i. if j \<le> i \<and> i < k then Finished else workers p i)\<rparr>)"
  using assms(1,3,4)
proof (induction k rule: nat_induct_at_least)
  case base
  have "(\<lambda>i. if j \<le> i \<and> i < j then Finished else workers p i) = workers p" by (intro ext) auto
  then show ?case by simp
next
  case (Suc k)
  let ?q = "\<lambda>k. p\<lparr>workers := (\<lambda>i. if j \<le> i \<and> i < k then Finished else workers p i)\<rparr>"
  have run: "rtranclp pool_step p (?q k)" using Suc by auto
  have step: "pool_step (?q k) (goto k Finished (?q k))"
    using Suc.prems Suc.hyps assms(2) by (intro loop_off) auto
  have "(\<lambda>i. if j \<le> i \<and> i < k then Finished else workers p i)(k := Finished)
      = (\<lambda>i. if j \<le> i \<and> i < Suc k then Finished else workers p i)"
    using Suc.hyps by (auto simp: fun_eq_iff less_Suc_eq)
  then have "goto k Finished (?q k) = ?q (Suc k)" by simp
  from rtranclp.rtrancl_into_rtrancl[OF run step[unfolded this]] show ?case .
qed

lemma notify_none:
  assumes "dtor p = StopSet" and "\<forall>i. workers p i \<noteq> Blocked"
  shows "pool_step p (p\<lparr>dtor := Notified\<rparr>)"
proof -
  have "(\<lambda>i. if i < poolSize p \<and> workers p i = Blocked then Locking else workers p i) = workers p"
    using assms(2) by (intro ext) simp
  from notify_all[OF assms(1), unfolded this] show ?thesis by simp
qed

lemma run3: "pool_step a b \<Longrightarrow> rtranclp pool_step b c \<Longrightarrow> rtranclp pool_step a c"
  by (rule converse_rtranclp_into_rtranclp)

section \<open>Properties\<close>

text \<open>C21: No task is lost, duplicated or reordered: in every reachable state of the pool the tasks
  submitted so far are those started so far followed by those in the queue, and at most one
  worker is between the test of the queue and the end of its critical section.\<close>

theorem pool_exactly_once:
  assumes "rtranclp pool_step (ThreadPool_new n) p"
  shows "submitted p = started p @ tasks p \<and>
    (\<forall>i j. workers p i = Checking \<longrightarrow> workers p j = Checking \<longrightarrow> i = j)"
proof -
  have inv: "pool_inv p" using pool_reachable[OF assms] by blast
  with holder_unique[OF inv] show ?thesis by (auto simp: pool_invD(1)[OF inv])
qed

theorem pool_exactly_once_witness:
  "\<exists>p. rtranclp pool_step (ThreadPool_new 2) p \<and> submitted p = [7 :: nat] \<and> started p @ tasks p = [7]"
proof -
  have "pool_step (ThreadPool_new 2) (enqueue_push (7 :: nat) (ThreadPool_new 2))"
    by (rule enqueue) (simp_all add: ThreadPool_new_def)
  then have "rtranclp pool_step (ThreadPool_new 2) (enqueue_push (7 :: nat) (ThreadPool_new 2))" by blast
  from this pool_exactly_once[OF this] show ?thesis
    by (intro exI[of _ "enqueue_push 7 (ThreadPool_new 2)"]) (simp add: enqueue_push_def ThreadPool_new_def)
qed

text \<open>C22: As long as the pool is not being destroyed, a queued task never waits for nothing: in
  every reachable state with a task in the queue and at least one worker, some worker or a
  pending notification can take a step, without any help from outside.\<close>

theorem pool_no_stall:
  assumes "rtranclp pool_step (ThreadPool_new n) p" and "dtor p = NotStarted"
    and "tasks p \<noteq> []" and "0 < poolSize p"
  shows "\<exists>q. pool_step p q \<and> submitted q = submitted p \<and> dtor q = NotStarted"
proof -
  have inv: "pool_inv p" "served p" using pool_reachable[OF assms(1)] by blast+
  then have "\<not> stop p" using pool_invD(3)[OF inv(1)] assms(2) by simp
  from queued_task_moves[OF inv this assms(3,4)] assms(2) show ?thesis by (auto simp: internal_step_def)
qed

theorem pool_no_stall_witness:
  "\<exists>q. pool_step (enqueue_push (7 :: nat) (ThreadPool_new 2)) q"
proof -
  have "pool_step (ThreadPool_new 2) (enqueue_push (7 :: nat) (ThreadPool_new 2))"
    by (rule enqueue) (simp_all add: ThreadPool_new_def)
  then have "rtranclp pool_step (ThreadPool_new 2) (enqueue_push (7 :: nat) (ThreadPool_new 2))" by blast
  from pool_no_stall[OF this] show ?thesis by (auto simp: enqueue_push_def ThreadPool_new_def)
qed

text \<open>C39: The destructor can hang. \<open>stop\<close> is set and notified without the mutex, so both can fall
  between the test of the predicate and the wait of a worker: that worker then sleeps for
  ever and the destructor waits for it for ever. For any number of workers such a state is
  reachable; no step leads out of it.\<close>

theorem destructor_deadlock:
  assumes "0 < n"
  shows "\<exists>p. rtranclp pool_step (ThreadPool_new n) p \<and> dtor p = Notified \<and> workers p 0 = Blocked \<and>
    (\<forall>q. \<not> pool_step p q)"
proof -
  let ?w = "\<lambda>w :: 'a worker. (\<lambda>_. AtLoop)(0 := w)"
  let ?p = "\<lambda>w m s d. (ThreadPool_new n :: 'a pool)\<lparr>workers := ?w w, mutex := m, stop := s, dtor := d\<rparr>"
  note [simp] = ThreadPool_new_def wait_predicate_def
  have "pool_step (ThreadPool_new n) (goto 0 Locking (ThreadPool_new n))" using assms by (intro loop_on) simp_all
  then have 1: "pool_step (ThreadPool_new n) (?p Locking None False NotStarted)" by simp
  have 2: "pool_step (?p Locking None False NotStarted) (?p Checking (Some 0) False NotStarted)"
    using lock[of 0 "?p Locking None False NotStarted"] assms by simp
  have 3: "pool_step (?p Checking (Some 0) False NotStarted) (?p Sleeping (Some 0) False NotStarted)"
    using predicate_false[of 0 "?p Checking (Some 0) False NotStarted"] assms by simp
  have 4: "pool_step (?p Sleeping (Some 0) False NotStarted) (?p Sleeping (Some 0) True StopSet)"
    using set_stop[of "?p Sleeping (Some 0) False NotStarted"] by simp
  have 5: "pool_step (?p Sleeping (Some 0) True StopSet) (?p Sleeping (Some 0) True Notified)"
    using notify_none[of "?p Sleeping (Some 0) True StopSet"] by simp
  have 6: "pool_step (?p Sleeping (Some 0) True Notified) (?p Blocked None True Notified)"
    using block[of 0 "?p Sleeping (Some 0) True Notified"] assms by simp
  let ?q = "(?p Blocked None True Notified)\<lparr>workers :=
    (\<lambda>i. if 1 \<le> i \<and> i < n then Finished else workers (?p Blocked None True Notified) i)\<rparr>"
  have 7: "rtranclp pool_step (?p Blocked None True Notified) ?q"
    by (rule leave_loop) (use assms in simp_all)
  have run: "rtranclp pool_step (ThreadPool_new n) ?q"
    by (rule run3[OF 1 run3[OF 2 run3[OF 3 run3[OF 4 run3[OF 5 run3[OF 6 7]]]]]])
  have w: "workers ?q i = Finished \<or> i = 0" if "i < n" for i using that by auto
  have "\<not> pool_step ?q r" for r
  proof
    assume "pool_step ?q r"
    then show False
    proof (cases rule: pool_step.cases)
      case join
      then show ?thesis using assms by (auto dest: spec[of _ 0])
    qed (use w assms in \<open>force+\<close>)
  qed
  with run show ?thesis by (intro exI[of _ ?q]) simp
qed

theorem destructor_deadlock_witness:
  "\<exists>p :: nat pool. rtranclp pool_step (ThreadPool_new 12) p \<and> dtor p = Notified \<and> (\<forall>q. \<not> pool_step p q)"
  using destructor_deadlock[of 12] by auto

text \<open>The destructor does not wait for the queued tasks: for any number of workers and any
  task there is a run in which the destructor returns, every worker having ended, while the
  task is still in the queue and was never started.\<close>

theorem destructor_drops_tasks:
  "\<exists>p. rtranclp pool_step (ThreadPool_new n) p \<and> dtor p = Joined \<and> submitted p = [t] \<and>
     tasks p = [t] \<and> started p = [] \<and> notifications p = 0"
proof -
  note [simp] = ThreadPool_new_def enqueue_push_def
  let ?p = "\<lambda>k s d. (ThreadPool_new n)\<lparr>tasks := [t], submitted := [t], notifications := k, stop := s, dtor := d\<rparr>"
  let ?q = "(?p 0 True Notified)\<lparr>workers := (\<lambda>i. if 0 \<le> i \<and> i < n then Finished else workers (?p 0 True Notified) i)\<rparr>"
  have 1: "pool_step (ThreadPool_new n) (?p 1 False NotStarted)" using enqueue[of "ThreadPool_new n" t] by simp
  have 2: "pool_step (?p 1 False NotStarted) (?p 0 False NotStarted)" using notify_lost[of "?p 1 False NotStarted"] by simp
  have 3: "pool_step (?p 0 False NotStarted) (?p 0 True StopSet)" using set_stop[of "?p 0 False NotStarted"] by simp
  have 4: "pool_step (?p 0 True StopSet) (?p 0 True Notified)" using notify_none[of "?p 0 True StopSet"] by simp
  have 5: "rtranclp pool_step (?p 0 True Notified) ?q" by (rule leave_loop) simp_all
  have 6: "pool_step ?q (?q\<lparr>dtor := Joined\<rparr>)" by (rule join) simp_all
  have "rtranclp pool_step (?p 0 True Notified) (?q\<lparr>dtor := Joined\<rparr>)"
    using 5 6 by (rule rtranclp.rtrancl_into_rtrancl)
  note this = run3[OF 1 run3[OF 2 run3[OF 3 run3[OF 4 this]]]]
  then show ?thesis by (intro exI[of _ "?q\<lparr>dtor := Joined\<rparr>"]) simp
qed

end
