(* ===== verification/Spec2Isabelle.thy ===== *)
theory Spec2Isabelle
  imports Main_Programs End_To_End Races Socket_RAII Thread_Pool
begin

text \<open>
  A model of SocketMessaging, a chat server and a terminal client in C++.

  \<^bold>\<open>The program.\<close> The server accepts connections; a pool of threads runs one reading loop per
  connection; each line read is a command (CONNECT, DISCONNECT, SEND, PING, PONG,
  LIST_USERS, GET_LOG) that works on a registry of the clients by name. SEND puts a message
  in a queue, which a dispatcher thread empties towards the recipients' sockets. A heartbeat
  thread pings the clients and drops the silent ones, a console thread obeys the
  administrator. The client connects, keeps the messages a listener thread receives, and
  shows a menu. Both sides speak lines of fields separated by semicolons, each line in a
  frame of four length bytes and the text.

  \<^bold>\<open>Theories and sources.\<close> Names of definitions are those of the code.
  \<^item> Prelude: characters, decimal numbers (\<open>to_string\<close>, \<open>stoi\<close>, \<open>stoll\<close>), truncating division,
    splitting and joining. Unordered_Map: \<open>std::unordered_map\<close> and its contract as a locale.
  \<^item> Constants: \<open>Constants.hpp\<close>, \<open>Colors.hpp\<close>. Text_Utils: \<open>Utils.cpp\<close>. Message_Parser: \<open>MessageParser.cpp\<close>.
  \<^item> Process: the process both programs run in (files, clocks, sockets, standard streams),
    \<open>Logger.cpp\<close> and \<open>formatTimestamp\<close>. Network_Stream: \<open>NetworkStream.cpp\<close>. Runtime_Config:
    \<open>RuntimeConfig.cpp\<close> and the validity tests of \<open>Utils.cpp\<close>. Socket_RAII: \<open>Socket.hpp\<close>.
    Thread_Pool: \<open>ThreadPool.cpp\<close>.
  \<^item> Server_State: the fields of \<open>Server.hpp\<close>, the registry and the ban list of \<open>Server.cpp\<close>.
    Dispatcher: \<open>Dispatcher.cpp\<close>. Command_Handler: \<open>CommandHandler.cpp\<close>, \<open>Server::stop\<close>. Server_Loop: the
    threads and \<open>start\<close> of \<open>Server.cpp\<close>. Admin_Handler: \<open>AdminCommandHandler.cpp\<close>. Transition and
    Handler_Parts: the command handlers cut into the parts that run under one lock.
    Server_System: the server as a transition system. Server_Protocol: what it says on its
    sockets. Races: runs in which its threads get in each other's way.
  \<^item> Chat_Spec: members, bans and a mailbox, and the proof that the command handlers
    implement this specification. Chat_Refinement: the specification as a transition system
    and the simulation of the running server by it.
  \<^item> Message_Handler: \<open>MessageHandler.cpp\<close>. Client: \<open>Client.cpp\<close>. Client_UI: \<open>ClientUI.cpp\<close>, two
    threads under every schedule. Main_Programs: \<open>main_server.cpp\<close>, \<open>main_client.cpp\<close>.
    End_To_End: the server, a connection and a client as one transition system.
  \<^item> This theory: properties of a server and a client together.

  \<^bold>\<open>How the code is modelled.\<close> The server's and the client's state extend the record \<open>process\<close>, so
  that the operations of the shared components are polymorphic in the extension; every
  operation is a function from state to state (and result), its branches the branches of
  the code. The transition systems cut the threads where they hold no lock and act on what they
  saw under one, so that the races of the code are runs of the model: the handlers of CONNECT,
  SEND, DISCONNECT and PONG between what they look up and what they do with it, CONNECT again
  before its answer, a broadcast before each copy, the dispatcher between taking a message and
  delivering it, the heartbeat between listing the late clients and dropping each of them,
  the loops of the thread pool, the two threads of the client. The parts of a handler, one
  after the other, are one pass of the reading loop (\<open>parts_make_pass\<close>). What the environment decides is data: what
  \<open>::send\<close> returns, the bytes a peer will have sent until it closes, whether a file opens.
  \<open>int\<close> values that cannot leave the range of their type are unbounded; lengths in frames, the
  ports and the counters of messages are words.

  \<^bold>\<open>What is shown.\<close> Invariants: of the server under every interleaving of its threads
  (\<open>server_run_invariant\<close>), of the client's connection, of the interface. Functional
  behaviour: of each client command on every branch, of the dispatcher, of the heartbeat, of
  the console. Refinement: the command handlers implement the chat specification, and
  every run of the server is a run of it. Protocol: whatever the interleaving, a socket
  carries whole frames, each a line the client's parser knows (\<open>server_speaks_protocol\<close>). End
  to end: after any run of server, connection and client the inbox holds nothing but
  messages that their senders have written over a connection registered to them
  (\<open>inbox_authentic\<close>), each once and in order (\<open>inbox_exact\<close>). Round
  trips: frames, lines, the ban list, the user list, a message from sender to reader, PING and
  its answer, command-line arguments. Termination: the reading loops take at least a frame header in each
  pass, so they end on every finite input (the measure is the number of bytes left); waiting
  for an answer takes at most 62 turns of 50 ms for its limit of 3000 ms. The dispatcher
  empties its queue when nobody adds to it (\<open>dispatcher_drains\<close>). Safety and liveness of the
  thread pool. The remaining properties state what the code does where that may surprise:
  a lost wake-up, tasks dropped by the destructor, a name taken twice in a race, a
  second CONNECT on one connection, settings nothing reads, a message text cut at a
  semicolon, a relayed message the recipient refuses, a wrong key that stops the menu, a new
  client unregistered by the handler of an old connection, a message that overtakes the
  answer to CONNECT.

  \<^bold>\<open>Not modelled.\<close> Signals that interrupt a system call, spurious wake-ups of condition
  variables, exceptions of the allocator, locales other than "C", the effect of unlocked increments of the
  message counters (they are taken as atomic), and the screenshots and build files of the repository.
  The tests of one handler are one step, and the console's commands are one step each, although
  the code takes its locks one after the other in them. In the
  properties about sockets' contents a call of \<open>::send\<close> fails or takes the frame whole
  (\<open>MAX_RW_COUNT\<close> is the kernel's limit for one call); partial sends are in the functions.
  \<open>ctime\<close>, \<open>localtime\<close>, the kernel and the file system are functions of the environment. The
  overloads that only forward (\<open>build\<close> with several arguments, the accessors of \<open>Server.hpp\<close>) are
  the fields and definitions they forward to.
\<close>

section \<open>From the server to the client\<close>

lemma listen_pass_event:
  assumes "fdOpen p fd" and "0 \<le> fd" and "rx p fd = encodeMessage raw @ rest" and "sendable raw"
    and "parseMessage raw = Some ev" and "ev_type ev \<noteq> PING"
  shows "listen_pass (NetworkStream fd) h p =
    (Some (NetworkStream fd), Some ev,
     (if ev_type ev = MESSAGE then storeMessage ev (p\<lparr>rx := (rx p)(fd := rest)\<rparr>) h else h),
     p\<lparr>rx := (rx p)(fd := rest)\<rparr>)"
  using receive_frame[OF assms(1-4)] assms by (simp add: listen_pass_def NetworkStream_def)

lemma splitc_hd: "hd (splitc c s) = takeWhile (\<lambda>x. x \<noteq> c) s"
  by (induction s) (auto split: list.splits)

lemma decode_oversized:
  assumes "MAX_MESSAGE_SIZE < length m" and "length m < 2 ^ 32"
  shows "decode_bytes (encodeMessage m @ rest) = None"
proof -
  have "unat (word_of_nat (length m) :: u32) = length m"
    using assms(2) by (simp add: unat_of_nat)
  with assms(1) show ?thesis by (simp add: decode_bytes_def encodeMessage_def ntohl_htonl Let_def)
qed

section \<open>User lists\<close>

lemma user_list_join: "user_list rs = join '','' (map fst rs)"
  if "\<forall>e\<in>set rs. fst e \<noteq> []"
proof -
  have f: "fold (\<lambda>(u, k) acc. acc @ u @ '','') rs acc = acc @ concat (map (\<lambda>e. fst e @ '','') rs)" for acc
    by (induction rs arbitrary: acc) auto
  have j: "rs \<noteq> [] \<Longrightarrow> concat (map (\<lambda>e. fst e @ '','') rs) = join '','' (map fst rs) @ '',''"
  proof (induction rs)
    case (Cons e rs)
    then show ?case by (cases rs) simp_all
  qed simp
  show ?thesis
    by (cases "rs = []") (simp_all add: user_list_def f j)
qed

lemma split_user_list:
  assumes "\<forall>e\<in>set rs. name_ok (fst e)"
  shows "split (user_list rs) '','' = map fst rs"
proof -
  have ne: "\<forall>e\<in>set rs. fst e \<noteq> []" using assms by (auto simp: name_ok_def)
  show ?thesis
  proof (cases rs)
    case (Cons e es)
    have "join '','' (map fst rs) \<noteq> []" using ne Cons by (cases es) auto
    moreover have "splitc (CHR '','') (join '','' (map fst rs)) = map fst rs"
      using assms name_ok_chars Cons by (intro splitc_join) auto
    ultimately show ?thesis by (simp add: user_list_join[OF ne] split_char)
  qed (simp add: user_list_def split_def)
qed

lemma user_list_chars:
  assumes "\<forall>e\<in>set rs. name_ok (fst e)"
  shows "CHR '';'' \<notin> set (user_list rs)"
proof -
  have "\<forall>e\<in>set rs. fst e \<noteq> []" using assms by (auto simp: name_ok_def)
  with set_join_subset[of "'',''" "map fst rs"] assms name_ok_chars show ?thesis
    by (fastforce simp: user_list_join)
qed

text \<open>What the server reads of a line whose last field holds the delimiter.\<close>

lemma parse_build_last:
  assumes "wf_fields (cmd, args)" and "cmd \<noteq> []"
  shows "parse (build cmd (args @ [content])) =
    \<lparr>command = cmd, arguments = args @ splitc (CHR '';'') content, isValid = True\<rparr>"
proof -
  have app: "splitc c (join [c] (xs @ [t])) = xs @ splitc c t" if "\<forall>x\<in>set xs. c \<notin> set x" for c xs and t :: string
    using that
  proof (induction xs)
    case (Cons x xs)
    then show ?case by (cases xs) (auto simp: text_simps)
  qed simp
  have "join [CHR '';''] (cmd # args @ [content]) \<noteq> []"
    using assms(2) by (simp add: join_Cons)
  moreover have "splitc (CHR '';'') (join [CHR '';''] ((cmd # args) @ [content])) = (cmd # args) @ splitc (CHR '';'') content"
    using assms(1) by (intro app) (auto simp: wf_fields_def)
  ultimately show ?thesis
    by (simp add: parse_def butlast_build split_char MESSAGE_DELIMITER_def)
qed

section \<open>The handshake\<close>

text \<open>The answer to CONNECT as the client reads it.\<close>

lemma connect_reply_parsed:
  assumes "CHR '';'' \<notin> set u"
  shows "parse (connect_reply u s) =
    (if connect_ok u s then \<lparr>command = ''OK'', arguments = [''Connected as '' @ u], isValid = True\<rparr>
     else \<lparr>command = ''ERROR'', arguments = [if \<not> isValidUsername u s then ''Invalid username''
        else if isBanned u s then ''You are banned from this server'' else ''Username already exists''], isValid = True\<rparr>)"
  using assms
  by (simp add: connect_reply_def connect_ok_def isBanned_def isUsernameTaken_def parse_build wf_fields_def)

lemma connect_reply_sendable: "length u \<le> 1000 \<Longrightarrow> sendable (connect_reply u s)"
  by (simp add: connect_reply_def sendable_def length_build MAX_MESSAGE_SIZE_def)

section \<open>Properties that span the components\<close>


definition example_message :: Message where
  "example_message = \<lparr>msg_from = ''al'', msg_to = ''bob'', subject = ''hi'', body = ''text'', timestamp = 5000000000\<rparr>"

definition example_queue :: server where
  "example_queue = (example_server [(''bob'', online 7)])\<lparr>dispatcher :=
     Some ((fst (Dispatcher_new idle_process))\<lparr>messages := [example_message]\<rparr>)\<rparr>"

lemma example_queue_ok:
  "server_inv example_queue" "status example_queue = RUNNING" "takes_all example_queue k"
  "dispatcher example_queue = Some ((fst (Dispatcher_new idle_process))\<lparr>messages := [example_message]\<rparr>)"
  "getUserSocket ''bob'' example_queue = 7" "running (fst (Dispatcher_new idle_process))"
proof -
  have names: "name_ok ''bob''" "name_ok ''al''"
    by (simp_all add: name_ok_def username_char_def isalnum_def isalpha_def)
  have "config_wf example_queue = config_wf (example_server [])"
    by (rule config_wf_cong) (simp_all add: example_queue_def example_server_def)
  with names show "server_inv example_queue"
    by (simp add: server_inv_def example_queue_def um_valid_def dispatching_def queue_ok_def dispatcher_ok_def
        Dispatcher_new_def pending_def msg_ok_def example_message_def)
  have "takes_all example_queue k = takes_all (example_server [(''bob'', online 7)]) k"
    by (simp add: example_queue_def takes_all_def)
  then show "takes_all example_queue k" by simp
qed (simp_all add: example_queue_def getUserSocket_def Dispatcher_new_def)






text \<open>A message text is cut at its first semicolon. The client sends what its user typed without
  escaping it, so that the line has more than four fields and the server takes the fourth:
  the message put in the queue has as its body the text before the first semicolon, and the
  sender is told that the message was sent.\<close>

theorem text_cut_at_delimiter:
  assumes "dispatching s" and "takes_all s k" and "0 \<le> k" and "pending s = []"
    and "getUsernameBySocket k s \<noteq> []" and "name_ok to" and "to \<noteq> ''all''" and "0 < getUserSocket to s"
    and "isValidSubject subj s" and "sanitize subj = subj" and "CHR '';'' \<notin> set subj"
    and "takeWhile (\<lambda>c. c \<noteq> CHR '';'') content \<noteq> []"
    and "line = parse (build ''SEND'' [to, subj, content])"
    and "s' = handleSendMessage (command line # arguments line) k s"
  shows "(\<exists>m. pending s' = [m] \<and> msg_to m = to \<and> subject m = subj \<and>
      body m = sanitize (takeWhile (\<lambda>c. c \<noteq> CHR '';'') content)) \<and>
    sent_to k s' = sent_to k s @ encodeMessage (build ''OK'' [''Message sent''])"
proof -
  let ?t = "takeWhile (\<lambda>c. c \<noteq> CHR '';'') content"
  have "wf_fields (''SEND'', [to, subj])" using name_ok_chars[OF assms(6)] assms(11) by (simp add: wf_fields_def)
  from parse_build_last[OF this, of content]
  have line: "line = \<lparr>command = ''SEND'', arguments = [to, subj] @ splitc (CHR '';'') content, isValid = True\<rparr>"
    by (simp add: assms(13))
  obtain more where sp: "splitc (CHR '';'') content = ?t # more"
    using splitc_hd[of "CHR '';''" content] splitc_not_Nil[of "CHR '';''" content] by (cases "splitc (CHR '';'') content") auto
  let ?a = "''SEND'' # to # subj # ?t # more"
  have s': "s' = handleSendMessage ?a k s" by (simp add: assms(14) line sp)
  have to: "sanitize to = to" by (rule name_ok_sanitize[OF assms(6)])
  have acc: "send_accepted ?a k s" using assms(5,9,10,12) by (simp add: send_accepted_def)
  have disp: "has_room s" using assms(1,4) by (simp add: dispatching_def has_room_iff)
  have "pending s' = [the_message ?a k s]"
    unfolding s' pending_handleSend(1)[OF assms(1)] using acc assms(4,7,8) by (simp add: to)
  moreover have "send_reply ?a k s = build ''OK'' [''Message sent'']"
    using assms(5,7-10,12) disp by (simp add: send_reply_def to)
  ultimately show ?thesis
    using sent_to_handleSend[OF assms(2,3,1), of k ?a] by (simp add: s' the_message_def to assms(10))
qed

theorem text_cut_at_delimiter_witness:
  "\<exists>m. pending (handleSendMessage (command (parse (build ''SEND'' [''bob'', ''hi'', ''a; b''])) #
      arguments (parse (build ''SEND'' [''bob'', ''hi'', ''a; b'']))) 4
      (example_server [(''al'', online 4), (''bob'', online 7)])) = [m] \<and> body m = ''a''"
proof -
  let ?s = "example_server [(''al'', online 4), (''bob'', online 7)]"
  have s: "sanitize ''hi'' = ''hi''" "sanitize ''a'' = ''a''" by code_simp+
  have "getUsernameBySocket 4 ?s = ''al''" "getUserSocket ''bob'' ?s = 7"
    by (simp_all add: getUsernameBySocket_def getUserSocket_def)
  moreover have "name_ok ''bob''" by (simp add: name_ok_def username_char_def isalnum_def isalpha_def)
  ultimately show ?thesis
    using text_cut_at_delimiter[of ?s 4 "''bob''" "''hi''" "''a; b''", OF _ _ _ _ _ _ _ _ _ _ _ _ refl refl]
    by (auto simp: s example_valid)
qed

text \<open>A message near the size limit is accepted from its sender and cannot be received. The frame
  to the recipient carries the sender's name and the time on top of the text, so for every
  sender, recipient and subject there is a text with which the SEND line is a legal frame
  while the frame the dispatcher sends exceeds 10 MB: sending it succeeds and is counted,
  and the recipient's stream gives no message and is marked as not connected, which ends
  its listener.\<close>

theorem oversized_relay:
  assumes "length to \<le> length sender + 4" and "length sender \<le> 100" and "length subj \<le> 500"
    and "takes_all s k" and "0 < k" and "getUserSocket to s = k"
    and "length (timestampToUnixString now) \<le> 20"
  shows "\<exists>content. sendable (build ''SEND'' [to, subj, content]) \<and>
    (let m = \<lparr>msg_from = sender, msg_to = to, subject = subj, body = content, timestamp = now\<rparr>; s' = deliver m s
     in totalMessagesSent s' = totalMessagesSent s + 1 \<and>
        sent_to k s' = sent_to k s @ encodeMessage (message_frame m) \<and>
        (\<forall>(p :: client) fd rest. fdOpen p fd \<longrightarrow> 0 \<le> fd \<longrightarrow> rx p fd = encodeMessage (message_frame m) @ rest \<longrightarrow>
           fst (ns_receive (NetworkStream fd) p) = None \<and> \<not> connected (fst (snd (ns_receive (NetworkStream fd) p)))))"
proof -
  define n where "n = MAX_MESSAGE_SIZE - (length to + length subj + 8)"
  define content where "content = replicate n (CHR ''x'')"
  let ?m = "\<lparr>msg_from = sender, msg_to = to, subject = subj, body = content, timestamp = now\<rparr>"
  have small: "length to + length subj + 8 < MAX_MESSAGE_SIZE"
    using assms(1-3) by (simp add: MAX_MESSAGE_SIZE_def)
  then have len: "length content = n" "length to + length subj + 8 + n = MAX_MESSAGE_SIZE"
    by (simp_all add: content_def n_def)
  have "length (build ''SEND'' [to, subj, content]) = MAX_MESSAGE_SIZE"
    using len by (simp add: length_build)
  then have sd: "sendable (build ''SEND'' [to, subj, content])"
    by (simp add: sendable_def MAX_MESSAGE_SIZE_def)
  have fl: "length (message_frame ?m) = 12 + length sender + length subj + n + length (timestampToUnixString now)"
    using len(1) by (simp add: message_frame_def length_build)
  have "timestampToUnixString now \<noteq> []" by (simp add: timestampToUnixString_def to_string_def)
  then have ts: "0 < length (timestampToUnixString now)" by blast
  have big: "MAX_MESSAGE_SIZE < length (message_frame ?m)" unfolding fl using len(2) assms(1) ts by linarith
  have "length (message_frame ?m) < 2 ^ 32"
    unfolding fl using len(2) assms(2,3,7) by (simp add: MAX_MESSAGE_SIZE_def)
  note dec = decode_oversized[OF big this]
  have "sent_to k (deliver ?m s) = sent_to k s @ encodeMessage (message_frame ?m)"
    "totalMessagesSent (deliver ?m s) = totalMessagesSent s + 1"
    using assms(4-6)
    by (simp_all add: deliver_def Let_def case_prod_beta fst_send_on_all sent_to_send_on incrementMessagesSent_def
        sent_to_def[of _ "_\<lparr>totalMessagesSent := _\<rparr>"] sent_to_def[of _ "snd _", symmetric])
  moreover have "fst (ns_receive (NetworkStream fd) p) = None \<and> \<not> connected (fst (snd (ns_receive (NetworkStream fd) p)))"
    if "fdOpen p fd" "0 \<le> fd" "rx p fd = encodeMessage (message_frame ?m) @ rest" for p :: client and fd rest
  proof -
    obtain ok m p' where d: "decodeMessage fd p = (ok, m, p')" by (metis prod_cases3)
    from decodeMessage_open[OF that(1) d] dec[of rest] that(3) have "\<not> ok" by simp
    with d that(2) show ?thesis by (simp add: ns_receive_def NetworkStream_def)
  qed
  ultimately show ?thesis using sd unfolding Let_def by (intro exI[of _ content] conjI allI impI) blast+
qed

theorem oversized_relay_witness:
  "\<exists>content. sendable (build ''SEND'' [''bob'', ''hi'', content]) \<and>
     totalMessagesSent (deliver \<lparr>msg_from = ''al'', msg_to = ''bob'', subject = ''hi'', body = content, timestamp = 0\<rparr> example_queue)
       = totalMessagesSent example_queue + 1"
proof -
  have "timestampToUnixString 0 = ''0''"
    unfolding timestampToUnixString_def to_time_t_def tdiv_def ns_per_s_def by code_simp
  then show ?thesis
    using oversized_relay[of "''bob''" "''al''" "''hi''" example_queue 7 0] example_queue_ok(3,5)
    by (auto simp: Let_def)
qed

section \<open>The heartbeat\<close>

lemma ping_frame [simp]:
  "status (ping_clients s) = status s" "fdOpen (ping_clients s) = fdOpen s" "commands (ping_clients s) = commands s"
  "steadyClock (ping_clients s) = steadyClock s" "rx (ping_clients s) = rx s"
proof -
  let ?f = "\<lambda>(username, info) s. LOG_DEBUG (''PING sent to '' @ username) (snd (send_on (socket info) (''PING'' @ [NL]) s))"
  have "status (fold ?f cs t) = status t" "fdOpen (fold ?f cs t) = fdOpen t" "commands (fold ?f cs t) = commands t"
    "steadyClock (fold ?f cs t) = steadyClock t" "rx (fold ?f cs t) = rx t"
    for cs :: "(string, ClientInfo) umap" and t :: server
    by (rule fold_keeps, simp add: case_prod_beta del: append_Cons)+
  then show "status (ping_clients s) = status s" "fdOpen (ping_clients s) = fdOpen s" "commands (ping_clients s) = commands s"
    "steadyClock (ping_clients s) = steadyClock s" "rx (ping_clients s) = rx s"
    unfolding ping_clients_def Let_def by simp_all
qed

lemma filter_single: "distinct (map f xs) \<Longrightarrow> x \<in> set xs \<Longrightarrow> filter (\<lambda>y. f y = f x) xs = [x]"
proof (induction xs)
  case (Cons y ys)
  show ?case
  proof (cases "y = x")
    case True
    with Cons.prems(1) have "filter (\<lambda>z. f z = f x) ys = []" by (auto simp: filter_empty_conv image_iff)
    with True show ?thesis by simp
  next
    case False
    with Cons show ?thesis by (auto simp: image_iff)
  qed
qed simp

lemma sent_to_pings:
  assumes "takes_all s k" and "0 \<le> k" and "sockets_ok (clients s)" and "(u, i) \<in> set (clients s)" and "k = socket i"
  shows "sent_to k (ping_clients s) = sent_to k s @ encodeMessage (''PING'' @ [NL])"
proof -
  let ?p = "''PING'' @ [NL]"
  let ?f = "\<lambda>(username, info) s. LOG_DEBUG (''PING sent to '' @ username) (snd (send_on (socket info) ?p s))"
  have "takes_all t k \<Longrightarrow> sent_to k (fold ?f cs t) =
      sent_to k t @ concat (map (\<lambda>_. encodeMessage ?p) (filter (\<lambda>e. socket (snd e) = k) cs))"
    for cs :: "(string, ClientInfo) umap" and t :: server
    using assms(2)
    by (induction cs arbitrary: t) (auto simp: case_prod_beta sent_to_all sent_to_other simp del: append_Cons)
  moreover have "filter (\<lambda>e. socket (snd e) = k) (clients s) = [(u, i)]"
    using filter_single[of "\<lambda>e. socket (snd e)" "clients s" "(u, i)"] assms(3-5) by (simp add: sockets_ok_def)
  ultimately have "sent_to k (fold ?f (clients s) s) = sent_to k s @ encodeMessage ?p" using assms(1) by simp
  then show ?thesis unfolding ping_clients_def Let_def by (simp add: sent_to_def del: append_Cons)
qed

text \<open>The client's half.\<close>

lemma client_answers_ping:
  fixes c :: client
  assumes "0 \<le> fd" and "takes_all c fd" and "mh_socketFd h = fd"
  obtains c' where "listen_pass (NetworkStream fd) h (c\<lparr>rx := (rx c)(fd := encodeMessage (''PING'' @ [NL]))\<rparr>) =
      (Some (NetworkStream fd), None, h, c')"
    and "sent_to fd c' = sent_to fd c @ encodeMessage (build ''PONG'' [])"
proof -
  let ?ping = "''PING'' @ [NL]" and ?pong = "build ''PONG'' []"
  let ?c = "c\<lparr>rx := (rx c)(fd := encodeMessage ?ping)\<rparr>"
  define c1 where "c1 = c\<lparr>rx := (rx c)(fd := [])\<rparr>"
  have build: "?ping = build ''PING'' []" by (simp add: build_def)
  have "fdOpen ?c fd" "sendable ?ping" using assms(2) by (simp_all add: takes_all_def sendable_def MAX_MESSAGE_SIZE_def)
  then have "ns_receive (NetworkStream fd) ?c = (Some ?ping, NetworkStream fd, c1)"
    using receive_frame[of ?c fd ?ping "[]"] assms(1) by (simp add: c1_def del: append_Cons)
  moreover have "parseMessage ?ping = Some \<lparr>ev_type = PING, ev_data = [], ev_args = []\<rparr>"
    unfolding build by (subst parseMessage_build) (simp_all add: wf_fields_def)
  ultimately have "listen_pass (NetworkStream fd) h ?c = (Some (NetworkStream fd), None, h,
      LOG_DEBUG ''PING received, PONG sent'' (snd (sendCommand ?pong h c1)))"
    using connected_stream[OF assms(1)] by (simp add: listen_pass_def)
  moreover have "takes_all c1 fd" "sent_to fd c1 = sent_to fd c" using assms(2) by (simp_all add: c1_def takes_all_def sent_to_def)
  then have "sent_to fd (LOG_DEBUG ''PING received, PONG sent'' (snd (sendCommand ?pong h c1))) = sent_to fd c @ encodeMessage ?pong"
    using assms(1,3) by (simp add: sendCommand_def case_prod_beta Let_def fst_send_on_all sent_to_all)
  ultimately show thesis using that by blast
qed



section \<open>A message ahead of the answer\<close>

lemma overtaking_run:
  assumes "exited s = None" and "status s = RUNNING" and "dispatcher s = Some d" and "running d" and "messages d = m # rest"
    and "rx s k = encodeMessage (build ''CONNECT'' [msg_to m]) @ q" and "map_of (commands s) ''CONNECT'' = Some CmdConnect"
    and "connect_ok (msg_to m) s" and "sanitize (msg_to m) = msg_to m" and "length (msg_to m) \<le> 1000"
    and "fdOpen s k" and "0 < k" and "takes_all s k"
  obtains t where "rtranclp system_step (idle_system s) (idle_system t)" and "getUserSocket (msg_to m) t = k"
    and "sent_to k t = sent_to k s @ encodeMessage (message_frame m) @ encodeMessage (build ''OK'' [''Connected as '' @ msg_to m])"
    and "pending t = rest"
proof -
  let ?u = "msg_to m"
  let ?y = "\<lambda>s ps f. \<lparr>server_of = s, parts = ps, in_flight = f, expired = []\<rparr>"
  define s1 where "s1 = s\<lparr>rx := (rx s)(k := q)\<rparr>"
  define s2 where "s2 = connect_register ?u k s1"
  have f2: "exited s2 = None" "status s2 = RUNNING" "dispatcher s2 = Some d" "getUserSocket ?u s2 = k"
    "takes_all s2 k" "sent_to k s2 = sent_to k s"
    using assms(1-3,13) by (simp_all add: s2_def s1_def connect_register_def getUserSocket_def takes_all_def
        registerClient_def sent_to_def)
  obtain s3 where s3: "dispatch_take s2 = Some (m, s3)" and f3: "clients s3 = clients s2"
    "sendResult s3 = sendResult s2" "fdOpen s3 = fdOpen s2"
    "\<And>j. sent_to j s3 = sent_to j s2" "dispatcher s3 = Some (d\<lparr>messages := rest\<rparr>)" "exited s3 = exited s2"
    using dispatch_take_runs[OF f2(3) assms(4) f2(2) assms(5)] by metis
  define s4 where "s4 = deliver m s3"
  define s5 where "s5 = connect_answer ?u k s4"
  have k: "0 \<le> k" using assms(12) by simp
  have "system_step (?y s [] None) (?y s1 [Registering ?u k] None)"
    using handler_starts[of "?y s [] None" k "Registering ?u k" s1] assms(1)
      connect_line[OF assms(2,11) k assms(6-10)] by (simp add: s1_def)
  moreover have "system_step (?y s1 [Registering ?u k] None) (?y s2 [Answering ?u k] None)"
    using handler_goes_on[of "?y s1 [Registering ?u k] None" "[]" "Registering ?u k" "[]" "Answering ?u k" s2] assms(1)
    by (simp add: s1_def s2_def)
  moreover have "system_step (?y s2 [Answering ?u k] None) (?y s3 [Answering ?u k] (Some m))"
    using dispatcher_takes[of "?y s2 [Answering ?u k] None" m s3] s3 f2(1) by simp
  moreover have "system_step (?y s3 [Answering ?u k] (Some m)) (?y s4 [Answering ?u k] None)"
    using dispatcher_delivers[of "?y s3 [Answering ?u k] (Some m)" m] f3(6) f2(1) by (simp add: s4_def)
  moreover have "system_step (?y s4 [Answering ?u k] None) (?y s5 [] None)"
    using handler_ends[of "?y s4 [Answering ?u k] None" "[]" "Answering ?u k" "[]" s5] f3(6) f2(1) by (simp add: s4_def s5_def)
  ultimately have run: "rtranclp system_step (?y s [] None) (?y s5 [] None)"
    by (meson converse_rtranclp_into_rtranclp rtranclp.rtrancl_refl)
  have t3: "takes_all s3 k" "getUserSocket ?u s3 = k"
    using takes_all_cong[OF f3(3,2)] f2(4,5) f3(1) by (simp_all add: getUserSocket_def)
  have t4: "takes_all s4 k = takes_all s3 k" using takes_all_cong[of s4 s3] by (simp add: s4_def)
  have "sent_to k s4 = sent_to k s @ encodeMessage (message_frame m)"
    using sent_to_deliver[OF t3(2) assms(12) t3(1)] f2(6) f3(4) by (simp add: s4_def)
  then show thesis
    using that[of s5] run t3 t4 f3(5) k
    by (simp add: s5_def s4_def connect_answer_def sent_to_response getUserSocket_def pending_def idle_system_def)
qed

text \<open>A client that reads a message where it expects the answer.\<close>

lemma message_refuses:
  assumes "client_wf c" and "\<not> isConnected c" and "0 \<le> newFd c" and "inetOk c (serverAddress c)" and "connectOk c"
    and "\<forall>data. sendResult c (newFd c) data = int (length data)" and "rx c (newFd c) = encodeMessage (message_frame m) @ later"
    and "msg_ok m" and "sendable (message_frame m)"
  shows "\<exists>c'. Client_connect u c = (False, ''Connection refused'', c')"
proof -
  obtain r err c' where r: "Client_connect u c = (r, err, c')" by (metis prod_cases3)
  have "command (parse (message_frame m)) = ''MESSAGE''"
    using message_frame_fields[OF assms(8)] by (simp add: message_frame_def parse_build)
  with Client_connect_reply[OF assms(1-7,9) r] r show ?thesis by simp
qed

text \<open>C40: A client can be refused although the server has registered it. CONNECT makes the name known
  before it answers, and the dispatcher does not wait for the answer: there is a run in which
  a message that is queued for the name is delivered in between. The client takes the first
  line it reads for the answer and gives up with "Connection refused", the message is out of
  the queue and nobody has it, and the name is registered for a connection that the client
  has closed.\<close>

theorem message_overtakes_answer:
  assumes "server_inv s" and "exited s = None" and "status s = RUNNING"
    and "dispatcher s = Some d" and "running d" and "messages d = m # rest"
    and "rx s k = encodeMessage (build ''CONNECT'' [msg_to m]) @ q" and "map_of (commands s) ''CONNECT'' = Some CmdConnect"
    and "connect_ok (msg_to m) s" and "sanitize (msg_to m) = msg_to m" and "length (msg_to m) \<le> 1000"
    and "fdOpen s k" and "0 < k" and "takes_all s k" and "sendable (message_frame m)"
  shows "\<exists>y bs. rtranclp system_step (idle_system s) y \<and> sent_to k (server_of y) = sent_to k s @ bs \<and>
    getUserSocket (msg_to m) (server_of y) = k \<and> pending (server_of y) = rest \<and>
    (\<forall>c more. client_wf c \<and> \<not> isConnected c \<and> 0 \<le> newFd c \<and> inetOk c (serverAddress c) \<and> connectOk c \<and>
       (\<forall>data. sendResult c (newFd c) data = int (length data)) \<and> rx c (newFd c) = bs @ more \<longrightarrow>
       (\<exists>c'. Client_connect (msg_to m) c = (False, ''Connection refused'', c')))"
proof -
  let ?bs = "encodeMessage (message_frame m) @ encodeMessage (build ''OK'' [''Connected as '' @ msg_to m])"
  have ok: "msg_ok m" using assms(1,4,6) by (simp add: server_inv_def pending_def)
  obtain t where t: "rtranclp system_step (idle_system s) (idle_system t)" "getUserSocket (msg_to m) t = k"
    "sent_to k t = sent_to k s @ ?bs" "pending t = rest"
    by (rule overtaking_run[OF assms(2-14)]) (rule that)
  have "\<exists>c'. Client_connect (msg_to m) c = (False, ''Connection refused'', c')"
    if "client_wf c" "\<not> isConnected c" "0 \<le> newFd c" "inetOk c (serverAddress c)" "connectOk c"
      "\<forall>data. sendResult c (newFd c) data = int (length data)" "rx c (newFd c) = ?bs @ more" for c more
    by (rule message_refuses[OF that(1-6) _ ok assms(15)]) (use that(7) in simp)
  with t show ?thesis by (intro exI[of _ "idle_system t"] exI[of _ ?bs]) simp
qed

theorem message_overtakes_answer_witness:
  "\<exists>y bs. rtranclp system_step (idle_system (example_lines [] [example_message] (\<lambda>_. encodeMessage (build ''CONNECT'' [''bob''])))) y \<and>
     getUserSocket ''bob'' (server_of y) = 9 \<and> pending (server_of y) = [] \<and>
     (\<exists>c'. Client_connect ''bob'' (example_client\<lparr>rx := (\<lambda>_. bs)\<rparr>) = (False, ''Connection refused'', c'))"
proof -
  let ?s = "example_lines [] [example_message] (\<lambda>_. encodeMessage (build ''CONNECT'' [''bob'']))"
  have inv: "server_inv ?s"
  proof -
    have "config_wf ?s = config_wf (example_server [])"
      by (rule config_wf_cong) (simp_all add: example_lines_def initializeCommands_fields)
    moreover have "msg_ok example_message" using example_queue_ok(1,4) by (simp add: server_inv_def pending_def)
    ultimately show ?thesis
      by (simp add: server_inv_def dispatching_def queue_ok_def dispatcher_ok_def Dispatcher_new_def pending_def)
  qed
  have u: "msg_to example_message = ''bob''" by (simp add: example_message_def)
  have ok: "connect_ok (msg_to example_message) ?s" using example_lines_valid by (simp add: connect_ok_def u)
  have s: "sanitize (msg_to example_message) = msg_to example_message" unfolding u by code_simp
  have "length (timestampToUnixString 5000000000) = 1" by code_simp
  then have sd: "sendable (message_frame example_message)"
    by (simp add: sendable_def message_frame_def example_message_def length_build MAX_MESSAGE_SIZE_def)
  have r: "running ((fst (Dispatcher_new idle_process))\<lparr>messages := [example_message]\<rparr>)" by (simp add: Dispatcher_new_def)
  have c: "client_wf (example_client\<lparr>rx := (\<lambda>_. bs)\<rparr>) \<and> \<not> isConnected (example_client\<lparr>rx := (\<lambda>_. bs)\<rparr>) \<and>
      0 \<le> newFd (example_client\<lparr>rx := (\<lambda>_. bs)\<rparr>) \<and>
      inetOk (example_client\<lparr>rx := (\<lambda>_. bs)\<rparr>) (serverAddress (example_client\<lparr>rx := (\<lambda>_. bs)\<rparr>)) \<and>
      connectOk (example_client\<lparr>rx := (\<lambda>_. bs)\<rparr>) \<and>
      (\<forall>data. sendResult (example_client\<lparr>rx := (\<lambda>_. bs)\<rparr>) (newFd (example_client\<lparr>rx := (\<lambda>_. bs)\<rparr>)) data = int (length data))" for bs
    using example_client_wf
    by (simp add: client_wf_def) (simp add: example_client_def Client_new_def client.defs process.defs idle_process_def)
  have "\<exists>y bs. rtranclp system_step (idle_system ?s) y \<and> sent_to 9 (server_of y) = sent_to 9 ?s @ bs \<and>
    getUserSocket (msg_to example_message) (server_of y) = 9 \<and> pending (server_of y) = [] \<and>
    (\<forall>c more. client_wf c \<and> \<not> isConnected c \<and> 0 \<le> newFd c \<and> inetOk c (serverAddress c) \<and> connectOk c \<and>
       (\<forall>data. sendResult c (newFd c) data = int (length data)) \<and> rx c (newFd c) = bs @ more \<longrightarrow>
       (\<exists>c'. Client_connect (msg_to example_message) c = (False, ''Connection refused'', c')))"
    by (rule message_overtakes_answer[OF inv _ _ _ r _ _ _ ok s _ _ _ _ sd]) (simp_all add: u)
  then obtain y bs where y: "rtranclp system_step (idle_system ?s) y" "getUserSocket ''bob'' (server_of y) = 9" "pending (server_of y) = []"
    and refused: "\<forall>c more. client_wf c \<and> \<not> isConnected c \<and> 0 \<le> newFd c \<and> inetOk c (serverAddress c) \<and> connectOk c \<and>
       (\<forall>data. sendResult c (newFd c) data = int (length data)) \<and> rx c (newFd c) = bs @ more \<longrightarrow>
       (\<exists>c'. Client_connect ''bob'' c = (False, ''Connection refused'', c'))"
    unfolding u by (elim exE conjE) (rule that)
  have "\<exists>c'. Client_connect ''bob'' (example_client\<lparr>rx := (\<lambda>_. bs)\<rparr>) = (False, ''Connection refused'', c')"
    by (rule refused[rule_format, where more = "[]"]) (use c[of bs] in simp)
  with y show ?thesis by (intro exI[of _ y] exI[of _ bs] conjI)
qed

end
